theory Spec2Isabelle
  imports Main "HOL-Library.Monad_Syntax" "HOL-Library.Multiset"
begin

section \<open>Strings as Python 2 byte strings\<close>

text \<open>
  The source is Python 2 (\<^verbatim>\<open>checkm/hmmer.py\<close>). A \<^verbatim>\<open>str\<close> is a byte string, modelled
  as \<^typ>\<open>string\<close>. \<^verbatim>\<open>str.rstrip()\<close>, \<^verbatim>\<open>str.isspace\<close> and the regular expression
  class \<^verbatim>\<open>\s\<close> (byte pattern, no flags) all use the same six whitespace bytes.
\<close>

definition newline :: char where
  "newline = CHR 0x0A"

definition tab :: char where
  "tab = CHR 0x09"

definition isspace :: "char \<Rightarrow> bool" where
  "isspace c \<longleftrightarrow> c \<in> {CHR '' '', CHR 0x09, CHR 0x0A, CHR 0x0B, CHR 0x0C, CHR 0x0D}"

text \<open>\<^verbatim>\<open>s.rstrip()\<close>: drop the trailing whitespace.\<close>

definition rstrip :: "string \<Rightarrow> string" where
  "rstrip s = rev (dropWhile isspace (rev s))"

text \<open>
  \<^verbatim>\<open>re.split(r'\s+', s)\<close>: the pieces between maximal runs of whitespace. A run at the
  start or at the end of \<open>s\<close> leaves an empty first or last piece, and the empty string
  splits into one empty piece.
\<close>

fun re_split :: "string \<Rightarrow> string list" where
  "re_split [] = [[]]"
| "re_split (c # cs) =
     (if isspace c then
        (case cs of
           d # _ \<Rightarrow> if isspace d then re_split cs else [] # re_split cs
         | [] \<Rightarrow> [] # re_split cs)
      else
        (case re_split cs of
           w # ws \<Rightarrow> (c # w) # ws
         | [] \<Rightarrow> [[c]]))"

text \<open>\<^verbatim>\<open>sep.join(xs)\<close>.\<close>

fun join :: "string \<Rightarrow> string list \<Rightarrow> string" where
  "join sep [] = []"
| "join sep [x] = x"
| "join sep (x # y # ys) = x @ sep @ join sep (y # ys)"

text \<open>
  \<^verbatim>\<open>handle.readline()\<close> on a file whose unread content is \<open>s\<close>: the bytes up to and
  including the first newline (everything, when there is none; the empty string at end
  of file), and the content left unread.
\<close>

definition readline :: "string \<Rightarrow> string \<times> string" where
  "readline s =
     (case dropWhile (\<lambda>c. c \<noteq> newline) s of
        [] \<Rightarrow> (s, [])
      | n # rest \<Rightarrow> (takeWhile (\<lambda>c. c \<noteq> newline) s @ [n], rest))"

section \<open>Exceptions and the builtins the source calls\<close>

datatype error =
    FormatError string
  | HMMERError string
  | HMMMERModeError string
  | ValueError
  | AttributeError

text \<open>
  \<^verbatim>\<open>float(s)\<close>, \<^verbatim>\<open>int(s)\<close> and \<^verbatim>\<open>str(x)\<close> on numbers are builtins of the
  interpreter, not code of this repository. They are a parameter of the model: the
  conversions return \<open>None\<close> where the builtin raises \<^verbatim>\<open>ValueError\<close>, and \<open>'f\<close> is
  the type of floats. Every theorem stated for an arbitrary \<open>B\<close> holds whatever the
  builtins do.
\<close>

record 'f builtins =
  py_float :: "string \<Rightarrow> 'f option"
  py_int :: "string \<Rightarrow> int option"
  str_float :: "'f \<Rightarrow> string"
  str_int :: "int \<Rightarrow> string"

section \<open>Hit records\<close>

text \<open>
  An instance of \<^verbatim>\<open>HmmerHitTBL\<close> or \<^verbatim>\<open>HmmerHitDOM\<close> has either all of its attributes
  (the body of \<^verbatim>\<open>__init__\<close> ran to its end) or none (the \<^verbatim>\<open>if\<close> of \<^verbatim>\<open>__init__\<close> was
  false, and \<^verbatim>\<open>__init__\<close> has no \<^verbatim>\<open>else\<close>).
\<close>

datatype 'r pyobj = NoAttrs | Attrs 'r

record 'f HmmerHitTBL =
  target_name :: string
  target_accession :: string
  query_name :: string
  query_accession :: string
  full_e_value :: 'f
  full_score :: 'f
  full_bias :: 'f
  best_e_value :: 'f
  best_score :: 'f
  best_bias :: 'f
  exp :: 'f
  reg :: int
  clu :: int
  ov :: int
  env :: int
  dom :: int
  rep :: int
  inc :: int
  target_description :: string

record 'f HmmerHitDOM =
  target_name :: string
  target_accession :: string
  target_length :: int
  query_name :: string
  query_accession :: string
  query_length :: int
  full_e_value :: 'f
  full_score :: 'f
  full_bias :: 'f
  dom :: int
  ndom :: int
  c_evalue :: 'f
  i_evalue :: 'f
  dom_score :: 'f
  dom_bias :: 'f
  hmm_from :: int
  hmm_to :: int
  ali_from :: int
  ali_to :: int
  env_from :: int
  env_to :: int
  acc :: 'f
  target_description :: string

text \<open>
  \<^verbatim>\<open>HmmerHitTBL.__init__(values)\<close>. The conversions run in the order of the source; the
  first one that raises leaves with \<^verbatim>\<open>ValueError\<close> and no instance is returned.
\<close>

definition HmmerHitTBL_attrs :: "'f builtins \<Rightarrow> string list \<Rightarrow> 'f HmmerHitTBL option" where
  "HmmerHitTBL_attrs B values =
     do {
       v4 \<leftarrow> py_float B (values ! 4);
       v5 \<leftarrow> py_float B (values ! 5);
       v6 \<leftarrow> py_float B (values ! 6);
       v7 \<leftarrow> py_float B (values ! 7);
       v8 \<leftarrow> py_float B (values ! 8);
       v9 \<leftarrow> py_float B (values ! 9);
       v10 \<leftarrow> py_float B (values ! 10);
       v11 \<leftarrow> py_int B (values ! 11);
       v12 \<leftarrow> py_int B (values ! 12);
       v13 \<leftarrow> py_int B (values ! 13);
       v14 \<leftarrow> py_int B (values ! 14);
       v15 \<leftarrow> py_int B (values ! 15);
       v16 \<leftarrow> py_int B (values ! 16);
       v17 \<leftarrow> py_int B (values ! 17);
       Some \<lparr>HmmerHitTBL.target_name = values ! 0,
             target_accession = values ! 1,
             query_name = values ! 2,
             query_accession = (if values ! 3 = ''-'' then values ! 2 else values ! 3),
             full_e_value = v4, full_score = v5, full_bias = v6,
             best_e_value = v7, best_score = v8, best_bias = v9,
             exp = v10, reg = v11, clu = v12, ov = v13, env = v14,
             dom = v15, rep = v16, inc = v17,
             target_description = values ! 18\<rparr>
     }"

definition HmmerHitTBL_init :: "'f builtins \<Rightarrow> string list \<Rightarrow> error + 'f HmmerHitTBL pyobj" where
  "HmmerHitTBL_init B values =
     (if length values = 19 then
        (case HmmerHitTBL_attrs B values of
           None \<Rightarrow> Inl ValueError
         | Some h \<Rightarrow> Inr (Attrs h))
      else Inr NoAttrs)"

text \<open>\<^verbatim>\<open>HmmerHitDOM.__init__(values)\<close>.\<close>

definition HmmerHitDOM_attrs :: "'f builtins \<Rightarrow> string list \<Rightarrow> 'f HmmerHitDOM option" where
  "HmmerHitDOM_attrs B values =
     do {
       v2 \<leftarrow> py_int B (values ! 2);
       v5 \<leftarrow> py_int B (values ! 5);
       v6 \<leftarrow> py_float B (values ! 6);
       v7 \<leftarrow> py_float B (values ! 7);
       v8 \<leftarrow> py_float B (values ! 8);
       v9 \<leftarrow> py_int B (values ! 9);
       v10 \<leftarrow> py_int B (values ! 10);
       v11 \<leftarrow> py_float B (values ! 11);
       v12 \<leftarrow> py_float B (values ! 12);
       v13 \<leftarrow> py_float B (values ! 13);
       v14 \<leftarrow> py_float B (values ! 14);
       v15 \<leftarrow> py_int B (values ! 15);
       v16 \<leftarrow> py_int B (values ! 16);
       v17 \<leftarrow> py_int B (values ! 17);
       v18 \<leftarrow> py_int B (values ! 18);
       v19 \<leftarrow> py_int B (values ! 19);
       v20 \<leftarrow> py_int B (values ! 20);
       v21 \<leftarrow> py_float B (values ! 21);
       Some \<lparr>HmmerHitDOM.target_name = values ! 0,
             target_accession = values ! 1,
             target_length = v2,
             query_name = values ! 3,
             query_accession = (if values ! 4 = ''-'' then values ! 3 else values ! 4),
             query_length = v5,
             full_e_value = v6, full_score = v7, full_bias = v8,
             dom = v9, ndom = v10,
             c_evalue = v11, i_evalue = v12, dom_score = v13, dom_bias = v14,
             hmm_from = v15, hmm_to = v16, ali_from = v17, ali_to = v18,
             env_from = v19, env_to = v20,
             acc = v21,
             target_description = values ! 22\<rparr>
     }"

definition HmmerHitDOM_init :: "'f builtins \<Rightarrow> string list \<Rightarrow> error + 'f HmmerHitDOM pyobj" where
  "HmmerHitDOM_init B values =
     (if length values = 23 then
        (case HmmerHitDOM_attrs B values of
           None \<Rightarrow> Inl ValueError
         | Some h \<Rightarrow> Inr (Attrs h))
      else Inr NoAttrs)"

text \<open>\<^verbatim>\<open>HmmerHitTBL.__str__\<close>; reading an attribute that was never set raises.\<close>

definition HmmerHitTBL_str :: "'f builtins \<Rightarrow> 'f HmmerHitTBL pyobj \<Rightarrow> error + string" where
  "HmmerHitTBL_str B self =
     (case self of
        NoAttrs \<Rightarrow> Inl AttributeError
      | Attrs h \<Rightarrow> Inr (join [tab]
          [HmmerHitTBL.target_name h,
           HmmerHitTBL.target_accession h,
           HmmerHitTBL.query_name h,
           HmmerHitTBL.query_accession h,
           str_float B (HmmerHitTBL.full_e_value h),
           str_float B (HmmerHitTBL.full_score h),
           str_float B (HmmerHitTBL.full_bias h),
           str_float B (best_e_value h),
           str_float B (best_score h),
           str_float B (best_bias h),
           str_float B (exp h),
           str_int B (reg h),
           str_int B (clu h),
           str_int B (ov h),
           str_int B (env h),
           str_int B (HmmerHitTBL.dom h),
           str_int B (rep h),
           str_int B (inc h),
           HmmerHitTBL.target_description h]))"

text \<open>\<^verbatim>\<open>HmmerHitDOM.__str__\<close>.\<close>

definition HmmerHitDOM_str :: "'f builtins \<Rightarrow> 'f HmmerHitDOM pyobj \<Rightarrow> error + string" where
  "HmmerHitDOM_str B self =
     (case self of
        NoAttrs \<Rightarrow> Inl AttributeError
      | Attrs h \<Rightarrow> Inr (join [tab]
          [HmmerHitDOM.target_name h,
           HmmerHitDOM.target_accession h,
           str_int B (target_length h),
           HmmerHitDOM.query_name h,
           HmmerHitDOM.query_accession h,
           str_int B (query_length h),
           str_float B (HmmerHitDOM.full_e_value h),
           str_float B (HmmerHitDOM.full_score h),
           str_float B (HmmerHitDOM.full_bias h),
           str_int B (HmmerHitDOM.dom h),
           str_int B (ndom h),
           str_float B (c_evalue h),
           str_float B (i_evalue h),
           str_float B (dom_score h),
           str_float B (dom_bias h),
           str_int B (hmm_from h),
           str_int B (hmm_to h),
           str_int B (ali_from h),
           str_int B (ali_to h),
           str_int B (env_from h),
           str_int B (env_to h),
           str_float B (acc h),
           HmmerHitDOM.target_description h]))"

section \<open>The parser of tabular output\<close>

text \<open>
  \<^verbatim>\<open>HMMERParser\<close>: \<open>handle\<close> is the open file, modelled as the content that has not
  been read yet; \<open>mode\<close> is the string the constructor stores.
\<close>

record HMMERParser =
  handle :: string
  mode :: string

definition HMMERParser_init :: "string \<Rightarrow> string \<Rightarrow> error + HMMERParser" where
  "HMMERParser_init fileHandle m =
     (if m = ''dom'' then Inr \<lparr>handle = fileHandle, mode = ''domtblout''\<rparr>
      else if m = ''tbl'' then Inr \<lparr>handle = fileHandle, mode = ''tblout''\<rparr>
      else Inl (HMMERError (''Mode '' @ m @ '' not understood, please use ''
                  @ [CHR 0x27] @ ''dom'' @ [CHR 0x27] @ '' or '' @ [CHR 0x27] @ ''tbl'' @ [CHR 0x27])))"

text \<open>
  \<^verbatim>\<open>readHitsTBL\<close>. The result is the value returned (\<open>None\<close> for the empty dictionary
  \<^verbatim>\<open>{}\<close>) or the exception that leaves the method, and the parser with its handle
  advanced. \<^verbatim>\<open>line[0]\<close> on the empty string raises \<^verbatim>\<open>IndexError\<close>, which the
  \<^verbatim>\<open>except\<close> clause turns into \<^verbatim>\<open>return {}\<close>; \<^verbatim>\<open>FormatError\<close> and \<^verbatim>\<open>ValueError\<close>
  are not caught. The test \<^verbatim>\<open>len(line) != 0\<close> is evaluated after \<^verbatim>\<open>line[0]\<close>, as in the
  source.
\<close>

function readHitsTBL ::
  "'f builtins \<Rightarrow> HMMERParser \<Rightarrow> (error + 'f HmmerHitTBL pyobj option) \<times> HMMERParser" where
  "readHitsTBL B self =
     (let line = rstrip (fst (readline (handle self)));
          self' = self\<lparr>handle := snd (readline (handle self))\<rparr>
      in if line = [] then (Inr None, self')
         else if hd line \<noteq> CHR ''#'' \<and> length line \<noteq> 0 then
           (let dMatch = re_split (rstrip line)
            in if length dMatch < 19 then
                 (Inl (FormatError (''Error processing line:'' @ [newline] @ line)), self')
               else
                 (let refined_match = take 18 dMatch @ [join '' '' (drop 18 dMatch)]
                  in case HmmerHitTBL_init B refined_match of
                       Inl e \<Rightarrow> (Inl e, self')
                     | Inr hit \<Rightarrow> (Inr (Some hit), self')))
         else readHitsTBL B self')"
  by pat_completeness auto

text \<open>
  The loop reads on only after a comment line, which is not empty, so the unread content
  gets shorter.
\<close>

termination readHitsTBL
proof (relation "measure (\<lambda>(B, self). length (handle self))")
  fix B :: "'f builtins" and self self' :: HMMERParser and line :: string
  assume line: "line = rstrip (fst (readline (handle self)))"
    and self': "self' = self\<lparr>handle := snd (readline (handle self))\<rparr>"
    and ne: "line \<noteq> []"
  let ?s = "handle self"
  have "length (snd (readline ?s)) < length ?s"
  proof (cases "dropWhile (\<lambda>c. c \<noteq> newline) ?s")
    case Nil
    have r: "readline ?s = (?s, [])" unfolding readline_def Nil by simp
    from ne line r have "?s \<noteq> []" by (auto simp: rstrip_def)
    with r show ?thesis by simp
  next
    case (Cons n rest)
    have r: "snd (readline ?s) = rest" unfolding readline_def Cons by simp
    have "length (dropWhile (\<lambda>c. c \<noteq> newline) ?s) \<le> length ?s"
      by (rule length_dropWhile_le)
    with Cons r show ?thesis by simp
  qed
  with self' show "((B, self'), (B, self)) \<in> measure (\<lambda>(B, self). length (handle self))"
    by simp
qed simp

declare readHitsTBL.simps [simp del]

text \<open>\<^verbatim>\<open>readHitsDOM\<close>: the same loop with 23 columns.\<close>

function readHitsDOM ::
  "'f builtins \<Rightarrow> HMMERParser \<Rightarrow> (error + 'f HmmerHitDOM pyobj option) \<times> HMMERParser" where
  "readHitsDOM B self =
     (let line = rstrip (fst (readline (handle self)));
          self' = self\<lparr>handle := snd (readline (handle self))\<rparr>
      in if line = [] then (Inr None, self')
         else if hd line \<noteq> CHR ''#'' \<and> length line \<noteq> 0 then
           (let dMatch = re_split (rstrip line)
            in if length dMatch < 23 then
                 (Inl (FormatError (''Error processing line:'' @ [newline] @ line)), self')
               else
                 (let refined_match = take 22 dMatch @ [join '' '' (drop 22 dMatch)]
                  in case HmmerHitDOM_init B refined_match of
                       Inl e \<Rightarrow> (Inl e, self')
                     | Inr hit \<Rightarrow> (Inr (Some hit), self')))
         else readHitsDOM B self')"
  by pat_completeness auto

termination readHitsDOM
proof (relation "measure (\<lambda>(B, self). length (handle self))")
  fix B :: "'f builtins" and self self' :: HMMERParser and line :: string
  assume line: "line = rstrip (fst (readline (handle self)))"
    and self': "self' = self\<lparr>handle := snd (readline (handle self))\<rparr>"
    and ne: "line \<noteq> []"
  let ?s = "handle self"
  have "length (snd (readline ?s)) < length ?s"
  proof (cases "dropWhile (\<lambda>c. c \<noteq> newline) ?s")
    case Nil
    have r: "readline ?s = (?s, [])" unfolding readline_def Nil by simp
    from ne line r have "?s \<noteq> []" by (auto simp: rstrip_def)
    with r show ?thesis by simp
  next
    case (Cons n rest)
    have r: "snd (readline ?s) = rest" unfolding readline_def Cons by simp
    have "length (dropWhile (\<lambda>c. c \<noteq> newline) ?s) \<le> length ?s"
      by (rule length_dropWhile_le)
    with Cons r show ?thesis by simp
  qed
  with self' show "((B, self'), (B, self)) \<in> measure (\<lambda>(B, self). length (handle self))"
    by simp
qed simp

declare readHitsDOM.simps [simp del]

text \<open>
  \<^verbatim>\<open>HMMERParser.next\<close>. A hit is an instance of one of the two classes; \<open>None\<close> is
  Python's \<^verbatim>\<open>None\<close>, returned when the read method returned \<^verbatim>\<open>{}\<close>. An instance
  never compares equal to \<^verbatim>\<open>{}\<close>, so every hit is returned as it is.
\<close>

datatype 'f hit = TBL "'f HmmerHitTBL pyobj" | DOM "'f HmmerHitDOM pyobj"

definition HMMERParser_next ::
  "'f builtins \<Rightarrow> HMMERParser \<Rightarrow> (error + 'f hit option) \<times> HMMERParser" where
  "HMMERParser_next B self =
     (if mode self = ''domtblout'' then
        (case readHitsDOM B self of
           (Inl e, self') \<Rightarrow> (Inl e, self')
         | (Inr None, self') \<Rightarrow> (Inr None, self')
         | (Inr (Some hit), self') \<Rightarrow> (Inr (Some (DOM hit)), self'))
      else if mode self = ''tblout'' then
        (case readHitsTBL B self of
           (Inl e, self') \<Rightarrow> (Inl e, self')
         | (Inr None, self') \<Rightarrow> (Inr None, self')
         | (Inr (Some hit), self') \<Rightarrow> (Inr (Some (TBL hit)), self'))
      else (Inl (HMMERError (''Mode '' @ mode self @ '' not understood'')), self))"

section \<open>A decimal instance of the builtins\<close>

text \<open>
  The examples below are evaluated with this instance of the builtins. It reads the
  literals of Python 2.7: \<^verbatim>\<open>int(s)\<close> takes optional whitespace, a sign, optional whitespace
  and decimal digits; \<^verbatim>\<open>float(s)\<close> takes a sign and a decimal literal with an optional
  exponent, or \<^verbatim>\<open>inf\<close>, \<^verbatim>\<open>infinity\<close>, \<^verbatim>\<open>nan\<close> in any case. A float is kept as its exact
  decimal value (sign, mantissa, exponent of ten), and \<^verbatim>\<open>str\<close> of a float is the format
  \<^verbatim>\<open>%.12g\<close> with \<^verbatim>\<open>.0\<close> added to a result that looks like an integer. Rounding to
  binary64 is not modelled, so the instance differs from the interpreter on literals
  outside the range of binary64 and on exact ties at the twelfth digit.
\<close>

definition isdigit :: "char \<Rightarrow> bool" where
  "isdigit c \<longleftrightarrow> c \<in> set ''0123456789''"

definition digit_val :: "char \<Rightarrow> int" where
  "digit_val c = int (length (takeWhile (\<lambda>d. d \<noteq> c) ''0123456789''))"

definition digits_val :: "string \<Rightarrow> int" where
  "digits_val ds = foldl (\<lambda>n c. 10 * n + digit_val c) 0 ds"

function digits_of :: "int \<Rightarrow> string" where
  "digits_of n =
     (if n < 10 then [''0123456789'' ! nat n]
      else digits_of (n div 10) @ [''0123456789'' ! nat (n mod 10)])"
  by pat_completeness auto

termination digits_of
  by (relation "measure nat") auto

declare digits_of.simps [simp del]

definition has_sign :: "string \<Rightarrow> bool" where
  "has_sign s \<longleftrightarrow> s \<noteq> [] \<and> (hd s = CHR ''-'' \<or> hd s = CHR ''+'')"

definition is_neg :: "string \<Rightarrow> bool" where
  "is_neg s \<longleftrightarrow> s \<noteq> [] \<and> hd s = CHR ''-''"

definition unsign :: "string \<Rightarrow> string" where
  "unsign s = (if has_sign s then tl s else s)"

definition signed :: "bool \<Rightarrow> int \<Rightarrow> int" where
  "signed neg n = (if neg then - n else n)"

definition dec_int :: "string \<Rightarrow> int option" where
  "dec_int s =
     (let s1 = dropWhile isspace s;
          s2 = dropWhile isspace (unsign s1);
          ds = takeWhile isdigit s2;
          rest = dropWhile isdigit s2
      in if ds = [] \<or> \<not> list_all isspace rest then None
         else Some (signed (is_neg s1) (digits_val ds)))"

definition dec_str_int :: "int \<Rightarrow> string" where
  "dec_str_int i = (if i < 0 then ''-'' @ digits_of (- i) else digits_of i)"

datatype decimal = Decimal bool int int | DInf bool | DNaN

text \<open>Lower case of the letters that occur in \<^verbatim>\<open>infinity\<close>, \<^verbatim>\<open>nan\<close> and the exponent mark.\<close>

definition lower :: "char \<Rightarrow> char" where
  "lower c = (case map_of (zip ''INFTYAE'' ''inftyae'') c of Some d \<Rightarrow> d | None \<Rightarrow> c)"

definition dec_float :: "string \<Rightarrow> decimal option" where
  "dec_float s =
     (let s1 = rstrip (dropWhile isspace s);
          neg = is_neg s1;
          s2 = unsign s1;
          ip = takeWhile isdigit s2;
          r1 = dropWhile isdigit s2;
          dot = (r1 \<noteq> [] \<and> hd r1 = CHR ''.'');
          fp = (if dot then takeWhile isdigit (tl r1) else []);
          r2 = (if dot then dropWhile isdigit (tl r1) else r1);
          m = digits_val (ip @ fp);
          ex = unsign (tl r2)
      in if map lower s2 \<in> {''inf'', ''infinity''} then Some (DInf neg)
         else if map lower s2 = ''nan'' then Some DNaN
         else if ip = [] \<and> fp = [] then None
         else if r2 = [] then Some (Decimal neg m (- int (length fp)))
         else if lower (hd r2) = CHR ''e'' \<and> ex \<noteq> [] \<and> list_all isdigit ex then
           Some (Decimal neg m (signed (is_neg (tl r2)) (digits_val ex) - int (length fp)))
         else None)"

text \<open>The mantissa rounded to twelve significant digits, half to even.\<close>

definition round12 :: "int \<Rightarrow> int" where
  "round12 m =
     (let k = length (digits_of m) - 12; q = m div 10 ^ k; r = m mod 10 ^ k
      in if 10 ^ k < 2 * r \<or> (10 ^ k = 2 * r \<and> odd q) then q + 1 else q)"

definition strip_zeros :: "string \<Rightarrow> string" where
  "strip_zeros ds = rev (dropWhile (\<lambda>c. c = CHR ''0'') (rev ds))"

definition dec_str_float :: "decimal \<Rightarrow> string" where
  "dec_str_float x =
     (case x of
        DNaN \<Rightarrow> ''nan''
      | DInf neg \<Rightarrow> (if neg then ''-inf'' else ''inf'')
      | Decimal neg m e \<Rightarrow>
          (if neg then ''-'' else '''') @
          (if m = 0 then ''0.0''
           else
             (let X0 = int (length (digits_of m)) - 1 + e;
                  q = round12 m;
                  X = X0 + (int (length (digits_of q)) - int (min 12 (length (digits_of m))));
                  ds = strip_zeros (digits_of q);
                  n = nat (X + 1)
              in if X < - 4 \<or> 11 \<le> X then
                   [hd ds] @ (if tl ds = [] then '''' else ''.'' @ tl ds) @ ''e''
                   @ (if X < 0 then ''-'' else ''+'')
                   @ (if \<bar>X\<bar> < 10 then ''0'' else '''') @ digits_of \<bar>X\<bar>
                 else if 0 \<le> X then
                   take n (ds @ replicate n (CHR ''0'')) @ ''.''
                   @ (if drop n ds = [] then ''0'' else drop n ds)
                 else ''0.'' @ replicate (nat (- X - 1)) (CHR ''0'') @ ds)))"

definition decimal_builtins :: "decimal builtins" where
  "decimal_builtins = \<lparr>py_float = dec_float, py_int = dec_int, str_float = dec_str_float, str_int = dec_str_int\<rparr>"

section \<open>Example inputs\<close>

text \<open>
  A short-form line of 18 columns and a description, the values of its columns, the
  values of a per-domain line, and the records that the constructors build from them
  with the decimal builtins.
\<close>

definition tbl_line :: string where
  "tbl_line = ''A - B - 1.0 2.0 3.0 4.0 5.0 6.0 7.0 8 9 10 11 12 13 14 desc''"

definition tbl_line_numbers :: string where
  "tbl_line_numbers = ''A - B X 1.0 2.0 3.0 4.0 5.0 6.0 7 08 9 10 11 12 13 14 desc''"

definition tbl_values :: "string list" where
  "tbl_values = [''A'', ''-'', ''B'', ''-'', ''1.0'', ''2.0'', ''3.0'', ''4.0'', ''5.0'', ''6.0'',
     ''7.0'', ''8'', ''9'', ''10'', ''11'', ''12'', ''13'', ''14'', ''desc'']"

definition dom_values :: "string list" where
  "dom_values = [''A'', ''-'', ''399'', ''PGK'', ''PF00162.14'', ''384'', ''2.2e-164'', ''543.7'',
     ''0.1'', ''1'', ''1'', ''1.3e-167'', ''2.5e-164'', ''543.5'', ''0.1'', ''1'', ''384'', ''9'',
     ''386'', ''9'', ''386'', ''1.00'', ''desc'']"

definition tbl_hit :: "decimal HmmerHitTBL" where
  "tbl_hit = \<lparr>HmmerHitTBL.target_name = ''A'', target_accession = ''-'', query_name = ''B'',
     query_accession = ''B'',
     full_e_value = Decimal False 10 (- 1), full_score = Decimal False 20 (- 1),
     full_bias = Decimal False 30 (- 1), best_e_value = Decimal False 40 (- 1),
     best_score = Decimal False 50 (- 1), best_bias = Decimal False 60 (- 1),
     exp = Decimal False 70 (- 1), reg = 8, clu = 9, ov = 10, env = 11, dom = 12, rep = 13,
     inc = 14, target_description = ''desc''\<rparr>"

definition dom_hit :: "decimal HmmerHitDOM" where
  "dom_hit = \<lparr>HmmerHitDOM.target_name = ''A'', target_accession = ''-'', target_length = 399,
     query_name = ''PGK'', query_accession = ''PF00162.14'', query_length = 384,
     full_e_value = Decimal False 22 (- 165), full_score = Decimal False 5437 (- 1),
     full_bias = Decimal False 1 (- 1), dom = 1, ndom = 1,
     c_evalue = Decimal False 13 (- 168), i_evalue = Decimal False 25 (- 165),
     dom_score = Decimal False 5435 (- 1), dom_bias = Decimal False 1 (- 1),
     hmm_from = 1, hmm_to = 384, ali_from = 9, ali_to = 386, env_from = 9, env_to = 386,
     acc = Decimal False 100 (- 2), target_description = ''desc''\<rparr>"

text \<open>
  The two-line input of the concrete scenario, as the specification gives it (17 columns
  before the description), and the same input with the 18th column present.
\<close>

definition scenario_input :: string where
  "scenario_input = ''# header'' @ [newline]
     @ ''A - B - 1.0 2.0 3.0 4.0 5.0 6.0 7 8 9 10 11 12 13 desc words here'' @ [newline]"

definition scenario_input_18 :: string where
  "scenario_input_18 = ''# header'' @ [newline]
     @ ''A - B - 1.0 2.0 3.0 4.0 5.0 6.0 7 8 9 10 11 12 13 14 desc words here'' @ [newline]"

section \<open>The parallel extractor\<close>

text \<open>
  \<^verbatim>\<open>HMMERModelExtractor.extract\<close> fills a work queue, starts one writer process and
  \<open>totalThreads\<close> worker processes, joins the workers, puts the stop item on the writer's
  queue and joins the writer. The model is the interleaving of the processes: a state
  holds the file system, the two queues and the place each process has reached, and one
  step is one action of one process (\<^verbatim>\<open>start\<close>, \<^verbatim>\<open>join\<close>, \<^verbatim>\<open>Queue.get\<close>,
  \<^verbatim>\<open>Queue.put\<close>, \<^verbatim>\<open>HF.fetch\<close>, \<^verbatim>\<open>open\<close>, the copy loop, \<^verbatim>\<open>os.remove\<close>,
  \<^verbatim>\<open>close\<close>). A process that is blocked (\<^verbatim>\<open>get\<close> on an empty queue, \<^verbatim>\<open>join\<close> of a
  running process) or has ended has no step. Which process moves next is not determined:
  a schedule is a list of process names.

  What the model takes from outside: \<open>hmmfetch\<close> is what the command
  \<^verbatim>\<open>hmmfetch db key\<close> prints, as a function of the content of the database file
  (\<open>None\<close> when the file is missing) and the key; \<open>hmmer_installed\<close> is the outcome of
  \<^verbatim>\<open>checkForHMMER\<close>; the values returned by \<^verbatim>\<open>uuid.uuid4()\<close> are an argument of
  \<open>extract_start\<close>. The progress line written to the console is not part of the state.
  The source writes the output file through a buffer that \<^verbatim>\<open>close\<close> flushes; the model
  writes through, which no process of the call can observe.
\<close>

type_synonym path = string

type_synonym task = "(string \<times> path) option"

text \<open>An item of a queue: \<open>Some (modelAcc, fetchFilename)\<close>, or \<open>None\<close> for \<^verbatim>\<open>(None, None)\<close>.\<close>

record config =
  hmmModelFile :: path
  ouputModelFile :: path
  totalThreads :: nat
  hmmfetch :: "string option \<Rightarrow> string \<Rightarrow> string"
  hmmer_installed :: bool

text \<open>
  Where a worker (\<^verbatim>\<open>__extractModel\<close>) is: not started, about to build its
  \<^verbatim>\<open>HMMERRunner\<close>, about to \<^verbatim>\<open>get\<close>, about to \<^verbatim>\<open>fetch\<close>, about to \<^verbatim>\<open>put\<close>, ended by
  \<^verbatim>\<open>break\<close>, or ended by \<^verbatim>\<open>HMMERError\<close>.
\<close>

datatype worker = WNotStarted | WInit | WGet | WFetch string path | WPut string path | WExit | WRaised

text \<open>
  Where the writer (\<^verbatim>\<open>__reportModelExtractionProgress\<close>) is: not started, about to
  \<^verbatim>\<open>open\<close> the output file, about to \<^verbatim>\<open>get\<close>, about to copy a fetched file, about to
  remove it, about to \<^verbatim>\<open>close\<close>, ended, or ended by an exception (a missing file).
\<close>

datatype writer = RNotStarted | ROpen | RGet | RCopy string path | RRemove string path | RClose | RExit | RRaised

text \<open>Where \<^verbatim>\<open>extract\<close> is, from \<^verbatim>\<open>writeProc.start()\<close> to its return.\<close>

datatype main = MStartWriter | MStartWorker nat | MJoinWorker nat | MPutStop | MJoinWriter | MReturned

record state =
  fs :: "path \<rightharpoonup> string"
  workerQueue :: "task list"
  writerQueue :: "task list"
  calcProc :: "worker list"
  writeProc :: writer
  mainProc :: main

text \<open>\<^verbatim>\<open>os.path.join('/tmp', str(uuid.uuid4()))\<close>.\<close>

definition tmp_file :: "string \<Rightarrow> path" where
  "tmp_file uuid = ''/tmp/'' @ uuid"

text \<open>
  The state when both queues and the process objects exist and nothing has been started:
  one task for each model, then one stop item for each worker.
\<close>

definition extract_start :: "config \<Rightarrow> string list \<Rightarrow> string list \<Rightarrow> (path \<rightharpoonup> string) \<Rightarrow> state" where
  "extract_start c modelAccIds uuids files =
     \<lparr>fs = files,
      workerQueue = map Some (zip modelAccIds (map tmp_file uuids))
                    @ replicate (totalThreads c) None,
      writerQueue = [],
      calcProc = replicate (totalThreads c) WNotStarted,
      writeProc = RNotStarted,
      mainProc = MStartWriter\<rparr>"

definition terminated :: "worker \<Rightarrow> bool" where
  "terminated w \<longleftrightarrow> w = WExit \<or> w = WRaised"

text \<open>The steps of \<^verbatim>\<open>extract\<close> itself.\<close>

fun main_step :: "config \<Rightarrow> state \<Rightarrow> state option" where
  "main_step c s =
     (case mainProc s of
        MStartWriter \<Rightarrow> Some (s\<lparr>writeProc := ROpen, mainProc := MStartWorker 0\<rparr>)
      | MStartWorker i \<Rightarrow>
          if i < length (calcProc s)
          then Some (s\<lparr>calcProc := (calcProc s)[i := WInit], mainProc := MStartWorker (Suc i)\<rparr>)
          else Some (s\<lparr>mainProc := MJoinWorker 0\<rparr>)
      | MJoinWorker i \<Rightarrow>
          if i < length (calcProc s)
          then (if terminated (calcProc s ! i) then Some (s\<lparr>mainProc := MJoinWorker (Suc i)\<rparr>)
                else None)
          else Some (s\<lparr>mainProc := MPutStop\<rparr>)
      | MPutStop \<Rightarrow> Some (s\<lparr>writerQueue := writerQueue s @ [None], mainProc := MJoinWriter\<rparr>)
      | MJoinWriter \<Rightarrow>
          if writeProc s = RExit \<or> writeProc s = RRaised then Some (s\<lparr>mainProc := MReturned\<rparr>)
          else None
      | MReturned \<Rightarrow> None)"

text \<open>
  The steps of worker \<open>i\<close>. \<^verbatim>\<open>hmmfetch db key > file\<close> creates or overwrites the file
  with what the command prints.
\<close>

fun worker_step :: "config \<Rightarrow> nat \<Rightarrow> state \<Rightarrow> state option" where
  "worker_step c i s =
     (if i < length (calcProc s) then
        (case calcProc s ! i of
           WNotStarted \<Rightarrow> None
         | WInit \<Rightarrow>
             Some (s\<lparr>calcProc := (calcProc s)[i := (if hmmer_installed c then WGet else WRaised)]\<rparr>)
         | WGet \<Rightarrow>
             (case workerQueue s of
                [] \<Rightarrow> None
              | None # q \<Rightarrow> Some (s\<lparr>workerQueue := q, calcProc := (calcProc s)[i := WExit]\<rparr>)
              | Some (modelAcc, fetchFilename) # q \<Rightarrow>
                  Some (s\<lparr>workerQueue := q,
                          calcProc := (calcProc s)[i := WFetch modelAcc fetchFilename]\<rparr>))
         | WFetch modelAcc fetchFilename \<Rightarrow>
             Some (s\<lparr>fs := (fs s)(fetchFilename \<mapsto> hmmfetch c (fs s (hmmModelFile c)) modelAcc),
                     calcProc := (calcProc s)[i := WPut modelAcc fetchFilename]\<rparr>)
         | WPut modelAcc fetchFilename \<Rightarrow>
             Some (s\<lparr>writerQueue := writerQueue s @ [Some (modelAcc, fetchFilename)],
                     calcProc := (calcProc s)[i := WGet]\<rparr>)
         | WExit \<Rightarrow> None
         | WRaised \<Rightarrow> None)
      else None)"

text \<open>
  The steps of the writer. \<^verbatim>\<open>open(ouputModelFile, 'w')\<close> creates the file or truncates
  it to length zero; the copy loop appends the whole fetched file; opening or removing a
  missing file raises.
\<close>

fun writer_step :: "config \<Rightarrow> state \<Rightarrow> state option" where
  "writer_step c s =
     (case writeProc s of
        RNotStarted \<Rightarrow> None
      | ROpen \<Rightarrow> Some (s\<lparr>fs := (fs s)(ouputModelFile c \<mapsto> []), writeProc := RGet\<rparr>)
      | RGet \<Rightarrow>
          (case writerQueue s of
             [] \<Rightarrow> None
           | None # q \<Rightarrow> Some (s\<lparr>writerQueue := q, writeProc := RClose\<rparr>)
           | Some (modelAcc, fetchFilename) # q \<Rightarrow>
               Some (s\<lparr>writerQueue := q, writeProc := RCopy modelAcc fetchFilename\<rparr>))
      | RCopy modelAcc fetchFilename \<Rightarrow>
          (case fs s fetchFilename of
             None \<Rightarrow> Some (s\<lparr>writeProc := RRaised\<rparr>)
           | Some content \<Rightarrow>
               Some (s\<lparr>fs := (fs s)(ouputModelFile c \<mapsto>
                             (case fs s (ouputModelFile c) of None \<Rightarrow> [] | Some old \<Rightarrow> old) @ content),
                       writeProc := RRemove modelAcc fetchFilename\<rparr>))
      | RRemove modelAcc fetchFilename \<Rightarrow>
          (case fs s fetchFilename of
             None \<Rightarrow> Some (s\<lparr>writeProc := RRaised\<rparr>)
           | Some _ \<Rightarrow> Some (s\<lparr>fs := (fs s)(fetchFilename := None), writeProc := RGet\<rparr>))
      | RClose \<Rightarrow> Some (s\<lparr>writeProc := RExit\<rparr>)
      | RExit \<Rightarrow> None
      | RRaised \<Rightarrow> None)"

datatype pid = Main | Writer | Worker nat

fun step :: "config \<Rightarrow> pid \<Rightarrow> state \<Rightarrow> state option" where
  "step c Main s = main_step c s"
| "step c Writer s = writer_step c s"
| "step c (Worker i) s = worker_step c i s"

text \<open>A run under a schedule; \<open>None\<close> when the schedule names a process that has no step.\<close>

fun run :: "config \<Rightarrow> pid list \<Rightarrow> state \<Rightarrow> state option" where
  "run c [] s = Some s"
| "run c (p # ps) s = (case step c p s of None \<Rightarrow> None | Some s' \<Rightarrow> run c ps s')"

declare main_step.simps [simp del] worker_step.simps [simp del] writer_step.simps [simp del]

text \<open>
  A call that the claims about \<^verbatim>\<open>extract\<close> cover: HMMER is installed, there is at least
  one worker, the generated names are pairwise different, and neither the database nor
  the output file is one of the temporary files or the other.
\<close>

definition valid_call :: "config \<Rightarrow> string list \<Rightarrow> string list \<Rightarrow> bool" where
  "valid_call c modelAccIds uuids \<longleftrightarrow>
     hmmer_installed c \<and> 0 < totalThreads c \<and>
     length uuids = length modelAccIds \<and> distinct uuids \<and>
     ouputModelFile c \<notin> set (map tmp_file uuids) \<and>
     hmmModelFile c \<notin> set (map tmp_file uuids) \<and>
     hmmModelFile c \<noteq> ouputModelFile c"

subsection \<open>Invariants of the extractor\<close>

text \<open>
  Control: the work queue holds tasks and then one stop item for each worker that has not
  ended; the places of the processes agree with the place of \<^verbatim>\<open>extract\<close>; the stop item
  of the writer is the last item of its queue.
\<close>

definition alive :: "worker list \<Rightarrow> nat" where
  "alive ws = length (filter (\<lambda>w. w \<noteq> WExit) ws)"

definition queue_ok :: "state \<Rightarrow> bool" where
  "queue_ok s \<longleftrightarrow>
     (\<exists>ts. workerQueue s = map Some ts @ replicate (alive (calcProc s)) None \<and>
           (ts = [] \<or> (\<forall>j < length (calcProc s). calcProc s ! j \<noteq> WExit)))"

definition main_ok :: "config \<Rightarrow> state \<Rightarrow> bool" where
  "main_ok c s \<longleftrightarrow>
     (case mainProc s of
        MStartWriter \<Rightarrow> writeProc s = RNotStarted \<and>
          (\<forall>j < length (calcProc s). calcProc s ! j = WNotStarted)
      | MStartWorker i \<Rightarrow> writeProc s \<noteq> RNotStarted \<and> i \<le> totalThreads c \<and>
          (\<forall>j < length (calcProc s). (calcProc s ! j = WNotStarted) = (i \<le> j))
      | MJoinWorker i \<Rightarrow> writeProc s \<noteq> RNotStarted \<and> i \<le> totalThreads c \<and>
          (\<forall>j < length (calcProc s). calcProc s ! j \<noteq> WNotStarted) \<and>
          (\<forall>j < i. calcProc s ! j = WExit)
      | MPutStop \<Rightarrow> writeProc s \<noteq> RNotStarted \<and>
          (\<forall>j < length (calcProc s). calcProc s ! j = WExit)
      | MJoinWriter \<Rightarrow> writeProc s \<noteq> RNotStarted \<and>
          (\<forall>j < length (calcProc s). calcProc s ! j = WExit)
      | MReturned \<Rightarrow> (writeProc s = RExit \<or> writeProc s = RRaised) \<and>
          (\<forall>j < length (calcProc s). calcProc s ! j = WExit))"

definition stop_ok :: "state \<Rightarrow> bool" where
  "stop_ok s \<longleftrightarrow>
     (if mainProc s = MJoinWriter \<or> mainProc s = MReturned
      then (if writeProc s = RClose \<or> writeProc s = RExit then writerQueue s = []
            else \<exists>ts. writerQueue s = map Some ts @ [None])
      else None \<notin> set (writerQueue s) \<and> writeProc s \<noteq> RClose \<and> writeProc s \<noteq> RExit)"

definition ctl :: "config \<Rightarrow> state \<Rightarrow> bool" where
  "ctl c s \<longleftrightarrow>
     length (calcProc s) = totalThreads c \<and>
     (\<forall>j < length (calcProc s). calcProc s ! j \<noteq> WRaised) \<and>
     queue_ok s \<and> main_ok c s \<and> stop_ok s"

text \<open>An upper bound of the number of steps that are left, which every step lowers.\<close>

fun main_rank :: "nat \<Rightarrow> main \<Rightarrow> nat" where
  "main_rank T MStartWriter = 8 + 3 * T"
| "main_rank T (MStartWorker i) = 6 + T + 2 * (T - i)"
| "main_rank T (MJoinWorker i) = 5 + (T - i)"
| "main_rank T MPutStop = 4"
| "main_rank T MJoinWriter = 1"
| "main_rank T MReturned = 0"

fun worker_rank :: "worker \<Rightarrow> nat" where
  "worker_rank WNotStarted = 1"
| "worker_rank WInit = 1"
| "worker_rank WGet = 0"
| "worker_rank (WFetch k p) = 5"
| "worker_rank (WPut k p) = 4"
| "worker_rank WExit = 0"
| "worker_rank WRaised = 0"

fun writer_rank :: "writer \<Rightarrow> nat" where
  "writer_rank RNotStarted = 1"
| "writer_rank ROpen = 1"
| "writer_rank RGet = 0"
| "writer_rank (RCopy k p) = 2"
| "writer_rank (RRemove k p) = 1"
| "writer_rank RClose = 1"
| "writer_rank RExit = 0"
| "writer_rank RRaised = 0"

fun work_rank :: "task \<Rightarrow> nat" where
  "work_rank None = 1"
| "work_rank (Some t) = 6"

fun write_rank :: "task \<Rightarrow> nat" where
  "write_rank None = 2"
| "write_rank (Some t) = 3"

definition steps_left :: "state \<Rightarrow> nat" where
  "steps_left s =
     main_rank (length (calcProc s)) (mainProc s) + sum_list (map worker_rank (calcProc s))
     + writer_rank (writeProc s) + sum_list (map work_rank (workerQueue s))
     + sum_list (map write_rank (writerQueue s))"

text \<open>
  Data: every task is in exactly one place. It is still to be fetched (\<open>todo\<close>), fetched
  and not yet copied (\<open>ready\<close>: its file holds the fetched model), copied and not yet
  removed, or \<open>gone\<close> (copied and removed). The output file holds the models copied so
  far, in the order of copying.
\<close>

fun queued :: "task list \<Rightarrow> (string \<times> path) list" where
  "queued [] = []"
| "queued (None # q) = queued q"
| "queued (Some t # q) = t # queued q"

fun fetching :: "worker \<Rightarrow> (string \<times> path) list" where
  "fetching (WFetch k p) = [(k, p)]"
| "fetching w = []"

fun fetched :: "worker \<Rightarrow> (string \<times> path) list" where
  "fetched (WPut k p) = [(k, p)]"
| "fetched w = []"

fun copying :: "writer \<Rightarrow> (string \<times> path) list" where
  "copying (RCopy k p) = [(k, p)]"
| "copying w = []"

fun removing :: "writer \<Rightarrow> (string \<times> path) list" where
  "removing (RRemove k p) = [(k, p)]"
| "removing w = []"

definition todo :: "state \<Rightarrow> (string \<times> path) list" where
  "todo s = queued (workerQueue s) @ concat (map fetching (calcProc s))"

definition ready :: "state \<Rightarrow> (string \<times> path) list" where
  "ready s = concat (map fetched (calcProc s)) @ queued (writerQueue s) @ copying (writeProc s)"

definition paths_ok :: "config \<Rightarrow> (string \<times> path) list \<Rightarrow> bool" where
  "paths_ok c tasks \<longleftrightarrow>
     distinct (map snd tasks) \<and> ouputModelFile c \<notin> snd ` set tasks \<and>
     hmmModelFile c \<notin> snd ` set tasks \<and> hmmModelFile c \<noteq> ouputModelFile c"

definition written :: "config \<Rightarrow> string option \<Rightarrow> (string \<times> path) list \<Rightarrow> string" where
  "written c db ts = concat (map (\<lambda>t. hmmfetch c db (fst t)) ts)"

definition dat :: "config \<Rightarrow> (string \<times> path) list \<Rightarrow> string option \<Rightarrow> (string \<times> path) list \<Rightarrow> state \<Rightarrow> bool" where
  "dat c tasks db gone s \<longleftrightarrow>
     mset (gone @ removing (writeProc s) @ ready s @ todo s) = mset tasks \<and>
     fs s (hmmModelFile c) = db \<and>
     (if writeProc s = RNotStarted \<or> writeProc s = ROpen then gone = []
      else fs s (ouputModelFile c) = Some (written c db (gone @ removing (writeProc s)))) \<and>
     (\<forall>t \<in> set (ready s). fs s (snd t) = Some (hmmfetch c db (fst t))) \<and>
     (\<forall>t \<in> set (removing (writeProc s)). fs s (snd t) \<noteq> None) \<and>
     (\<forall>t \<in> set gone. fs s (snd t) = None) \<and>
     writeProc s \<noteq> RRaised"

subsection \<open>An example call\<close>

text \<open>
  Three models, two workers, a stub for \<^verbatim>\<open>hmmfetch\<close> that prints one line with the key, an
  output file that exists before the call, and a schedule in which the second model is
  fetched and copied first.
\<close>

definition stub_fetch :: "string option \<Rightarrow> string \<Rightarrow> string" where
  "stub_fetch db key = ''>MODEL:'' @ key @ [newline]"

definition ex_config :: config where
  "ex_config = \<lparr>hmmModelFile = ''db.hmm'', ouputModelFile = ''out.hmm'', totalThreads = 2,
                hmmfetch = stub_fetch, hmmer_installed = True\<rparr>"

definition ex_files :: "path \<rightharpoonup> string" where
  "ex_files = [''db.hmm'' \<mapsto> ''HMMER3'', ''out.hmm'' \<mapsto> ''old'']"

definition ex_schedule :: "pid list" where
  "ex_schedule = [Main, Main, Main, Main, Worker 0, Worker 1, Worker 1, Worker 0, Worker 0,
     Worker 0, Worker 1, Worker 1, Writer, Writer, Writer, Writer, Worker 0, Worker 0, Worker 0,
     Worker 0, Worker 1, Main, Main, Main, Main, Writer, Writer, Writer, Writer, Writer, Writer,
     Writer, Writer, Main]"

definition ex_start :: state where
  "ex_start = extract_start ex_config [''PF00001'', ''PF00002'', ''PF00003''] [''a'', ''b'', ''c''] ex_files"

definition ex_output :: string where
  "ex_output = ''>MODEL:PF00002'' @ [newline] @ ''>MODEL:PF00001'' @ [newline]
     @ ''>MODEL:PF00003'' @ [newline]"


section \<open>Properties of the hit records\<close>

lemma rstrip_Nil [simp]: "rstrip [] = []"
  by (simp add: rstrip_def)

lemma rstrip_idem [simp]: "rstrip (rstrip s) = rstrip s"
  by (simp add: rstrip_def)

lemma HmmerHitTBL_init_NoAttrs: "HmmerHitTBL_init B values = Inr NoAttrs \<longleftrightarrow> length values \<noteq> 19"
  by (simp add: HmmerHitTBL_init_def split: option.split)

lemma HmmerHitDOM_init_NoAttrs: "HmmerHitDOM_init B values = Inr NoAttrs \<longleftrightarrow> length values \<noteq> 23"
  by (simp add: HmmerHitDOM_init_def split: option.split)

text \<open>
  Claim C2, as amended. The claim says that constructing a record fails unless the list
  has exactly 19 (short form) or 23 (per-domain form) values. The constructors do not
  fail on a wrong count: \<^verbatim>\<open>__init__\<close> guards with \<^verbatim>\<open>if len(values) == 19\<close> and has no
  \<^verbatim>\<open>else\<close>, so it returns an instance that has no attribute. What holds: the constructor
  returns an instance without attributes exactly when the count is wrong; the attributes
  are set, or a conversion raises, only for exactly 19 (23) values.
\<close>

theorem init_wrong_field_count:
  "(HmmerHitTBL_init B tv = Inr NoAttrs \<longleftrightarrow> length tv \<noteq> 19) \<and>
   (HmmerHitDOM_init B dv = Inr NoAttrs \<longleftrightarrow> length dv \<noteq> 23)"
  by (simp add: HmmerHitTBL_init_NoAttrs HmmerHitDOM_init_NoAttrs)

text \<open>C2 as stated fails on a list of two values: both constructors return normally.\<close>

theorem init_wrong_field_count_counterexample:
  "length [''A'', ''-''] \<noteq> 19 \<and> length [''A'', ''-''] \<noteq> 23 \<and>
   HmmerHitTBL_init decimal_builtins [''A'', ''-''] = Inr NoAttrs \<and>
   HmmerHitDOM_init decimal_builtins [''A'', ''-''] = Inr NoAttrs"
  by (simp add: HmmerHitTBL_init_def HmmerHitDOM_init_def)

lemma HmmerHitTBL_attrs_names:
  assumes "HmmerHitTBL_attrs B values = Some h"
  shows "HmmerHitTBL.target_name h = values ! 0 \<and>
         HmmerHitTBL.target_accession h = values ! 1 \<and>
         HmmerHitTBL.query_name h = values ! 2 \<and>
         HmmerHitTBL.query_accession h = (if values ! 3 = ''-'' then values ! 2 else values ! 3) \<and>
         HmmerHitTBL.target_description h = values ! 18"
  using assms by (auto simp: HmmerHitTBL_attrs_def split: bind_splits)

lemma HmmerHitDOM_attrs_names:
  assumes "HmmerHitDOM_attrs B values = Some h"
  shows "HmmerHitDOM.target_name h = values ! 0 \<and>
         HmmerHitDOM.target_accession h = values ! 1 \<and>
         HmmerHitDOM.query_name h = values ! 3 \<and>
         HmmerHitDOM.query_accession h = (if values ! 4 = ''-'' then values ! 3 else values ! 4) \<and>
         HmmerHitDOM.target_description h = values ! 22"
  using assms by (auto simp: HmmerHitDOM_attrs_def split: bind_splits)

lemma tbl_values_init: "HmmerHitTBL_init decimal_builtins tbl_values = Inr (Attrs tbl_hit)"
  by code_simp

lemma dom_values_init: "HmmerHitDOM_init decimal_builtins dom_values = Inr (Attrs dom_hit)"
  by code_simp

text \<open>
  Claim C6, as amended. For both record forms, a query accession that is exactly \<^verbatim>\<open>-\<close>
  is replaced at construction by the query name, and any other query accession is stored
  as it is. The target accession is always stored as it is, also when it is \<^verbatim>\<open>-\<close>: the
  source has no default for it.
\<close>

theorem accession_default:
  assumes "HmmerHitTBL_init B tv = Inr (Attrs th)"
    and "HmmerHitDOM_init B dv = Inr (Attrs dh)"
  shows "HmmerHitTBL.query_accession th = (if tv ! 3 = ''-'' then tv ! 2 else tv ! 3) \<and>
         HmmerHitTBL.query_name th = tv ! 2 \<and>
         HmmerHitTBL.target_accession th = tv ! 1 \<and>
         HmmerHitDOM.query_accession dh = (if dv ! 4 = ''-'' then dv ! 3 else dv ! 4) \<and>
         HmmerHitDOM.query_name dh = dv ! 3 \<and>
         HmmerHitDOM.target_accession dh = dv ! 1"
proof -
  from assms(1) have "HmmerHitTBL_attrs B tv = Some th"
    by (auto simp: HmmerHitTBL_init_def split: if_splits option.splits)
  moreover from assms(2) have "HmmerHitDOM_attrs B dv = Some dh"
    by (auto simp: HmmerHitDOM_init_def split: if_splits option.splits)
  ultimately show ?thesis
    using HmmerHitTBL_attrs_names [of B tv th] HmmerHitDOM_attrs_names [of B dv dh] by simp
qed

theorem accession_default_witness:
  "HmmerHitTBL_init decimal_builtins tbl_values = Inr (Attrs tbl_hit) \<and>
   HmmerHitDOM_init decimal_builtins dom_values = Inr (Attrs dom_hit) \<and>
   tbl_values ! 3 = ''-'' \<and> HmmerHitTBL.query_accession tbl_hit = tbl_values ! 2 \<and>
   dom_values ! 4 \<noteq> ''-'' \<and> HmmerHitDOM.query_accession dom_hit = dom_values ! 4"
  using accession_default [OF tbl_values_init dom_values_init] tbl_values_init dom_values_init
  by (simp add: tbl_values_def dom_values_def)

text \<open>
  C6 as stated fails for the target accession: reported as \<^verbatim>\<open>-\<close>, it stays \<^verbatim>\<open>-\<close> in both
  record forms and is not replaced by the target name \<^verbatim>\<open>A\<close>.
\<close>

theorem target_accession_counterexample:
  "HmmerHitTBL_init decimal_builtins tbl_values = Inr (Attrs tbl_hit) \<and>
   tbl_values ! 1 = ''-'' \<and> tbl_values ! 0 = ''A'' \<and>
   HmmerHitTBL.target_accession tbl_hit = ''-'' \<and>
   HmmerHitDOM_init decimal_builtins dom_values = Inr (Attrs dom_hit) \<and>
   dom_values ! 1 = ''-'' \<and> dom_values ! 0 = ''A'' \<and>
   HmmerHitDOM.target_accession dom_hit = ''-''"
  using tbl_values_init dom_values_init
  by (simp add: tbl_values_def dom_values_def tbl_hit_def dom_hit_def)

section \<open>Properties of the parser\<close>

lemma readHitsTBL_blank:
  assumes "rstrip (fst (readline (handle self))) = []"
  shows "readHitsTBL B self = (Inr None, self\<lparr>handle := snd (readline (handle self))\<rparr>)"
  using assms by (simp add: readHitsTBL.simps [of B self])

lemma readHitsDOM_blank:
  assumes "rstrip (fst (readline (handle self))) = []"
  shows "readHitsDOM B self = (Inr None, self\<lparr>handle := snd (readline (handle self))\<rparr>)"
  using assms by (simp add: readHitsDOM.simps [of B self])

lemma readHitsTBL_comment:
  assumes "rstrip (fst (readline (handle self))) \<noteq> []"
    and "hd (rstrip (fst (readline (handle self)))) = CHR ''#''"
  shows "readHitsTBL B self = readHitsTBL B (self\<lparr>handle := snd (readline (handle self))\<rparr>)"
  using assms by (simp add: readHitsTBL.simps [of B self])

lemma readHitsDOM_comment:
  assumes "rstrip (fst (readline (handle self))) \<noteq> []"
    and "hd (rstrip (fst (readline (handle self)))) = CHR ''#''"
  shows "readHitsDOM B self = readHitsDOM B (self\<lparr>handle := snd (readline (handle self))\<rparr>)"
  using assms by (simp add: readHitsDOM.simps [of B self])

lemma readHitsTBL_data:
  assumes "line = rstrip (fst (readline (handle self)))"
    and "line \<noteq> []" and "hd line \<noteq> CHR ''#''"
  shows "readHitsTBL B self =
    (let self' = self\<lparr>handle := snd (readline (handle self))\<rparr>; dMatch = re_split line
     in if length dMatch < 19 then
          (Inl (FormatError (''Error processing line:'' @ [newline] @ line)), self')
        else (case HmmerHitTBL_init B (take 18 dMatch @ [join '' '' (drop 18 dMatch)]) of
                Inl e \<Rightarrow> (Inl e, self')
              | Inr hit \<Rightarrow> (Inr (Some hit), self')))"
  using assms by (simp add: readHitsTBL.simps [of B self] Let_def)

lemma readHitsDOM_data:
  assumes "line = rstrip (fst (readline (handle self)))"
    and "line \<noteq> []" and "hd line \<noteq> CHR ''#''"
  shows "readHitsDOM B self =
    (let self' = self\<lparr>handle := snd (readline (handle self))\<rparr>; dMatch = re_split line
     in if length dMatch < 23 then
          (Inl (FormatError (''Error processing line:'' @ [newline] @ line)), self')
        else (case HmmerHitDOM_init B (take 22 dMatch @ [join '' '' (drop 22 dMatch)]) of
                Inl e \<Rightarrow> (Inl e, self')
              | Inr hit \<Rightarrow> (Inr (Some hit), self')))"
  using assms by (simp add: readHitsDOM.simps [of B self] Let_def)

text \<open>
  Claim C4. Let \<open>line\<close> be the next line of the input with its trailing whitespace
  removed. If it is not blank, does not start with \<^verbatim>\<open>#\<close>, and splits on whitespace into
  fewer than 19 fields in short mode or fewer than 23 in per-domain mode, then
  \<^verbatim>\<open>next()\<close> leaves with \<^verbatim>\<open>FormatError\<close> for that line: the exception reaches the caller
  and no record is returned.
\<close>

theorem short_line_format_error:
  assumes "line = rstrip (fst (readline (handle self)))"
    and "line \<noteq> []" and "hd line \<noteq> CHR ''#''"
    and "mode self = ''tblout'' \<and> length (re_split line) < 19
         \<or> mode self = ''domtblout'' \<and> length (re_split line) < 23"
  shows "HMMERParser_next B self =
           (Inl (FormatError (''Error processing line:'' @ [newline] @ line)),
            self\<lparr>handle := snd (readline (handle self))\<rparr>)"
proof -
  from assms(4) show ?thesis
  proof
    assume "mode self = ''tblout'' \<and> length (re_split line) < 19"
    then show ?thesis
      using readHitsTBL_data [OF assms(1-3), of B]
      by (simp add: HMMERParser_next_def)
  next
    assume "mode self = ''domtblout'' \<and> length (re_split line) < 23"
    then show ?thesis
      using readHitsDOM_data [OF assms(1-3), of B]
      by (simp add: HMMERParser_next_def)
  qed
qed

theorem short_line_format_error_witness:
  "''A - B'' = rstrip (fst (readline (''A - B  '' @ [newline] @ ''C''))) \<and>
   length (re_split ''A - B'') < 19 \<and>
   HMMERParser_next decimal_builtins \<lparr>handle = ''A - B  '' @ [newline] @ ''C'', mode = ''tblout''\<rparr>
     = (Inl (FormatError (''Error processing line:'' @ [newline] @ ''A - B'')),
        \<lparr>handle = ''C'', mode = ''tblout''\<rparr>) \<and>
   HMMERParser_next decimal_builtins \<lparr>handle = ''A - B  '' @ [newline] @ ''C'', mode = ''domtblout''\<rparr>
     = (Inl (FormatError (''Error processing line:'' @ [newline] @ ''A - B'')),
        \<lparr>handle = ''C'', mode = ''domtblout''\<rparr>)"
proof -
  let ?h = "''A - B  '' @ [newline] @ ''C''"
  let ?t = "\<lparr>handle = ?h, mode = ''tblout''\<rparr>"
  let ?d = "\<lparr>handle = ?h, mode = ''domtblout''\<rparr>"
  have l: "''A - B'' = rstrip (fst (readline ?h))" by code_simp
  have n: "length (re_split ''A - B'') < 19" by code_simp
  have b: "''A - B'' \<noteq> []" and c: "hd ''A - B'' \<noteq> CHR ''#''" by simp_all
  have at: "''A - B'' = rstrip (fst (readline (handle ?t)))" by code_simp
  have dt: "mode ?t = ''tblout'' \<and> length (re_split ''A - B'') < 19
            \<or> mode ?t = ''domtblout'' \<and> length (re_split ''A - B'') < 23" by code_simp
  have et: "?t\<lparr>handle := snd (readline (handle ?t))\<rparr> = \<lparr>handle = ''C'', mode = ''tblout''\<rparr>"
    by code_simp
  have ad: "''A - B'' = rstrip (fst (readline (handle ?d)))" by code_simp
  have dd: "mode ?d = ''tblout'' \<and> length (re_split ''A - B'') < 19
            \<or> mode ?d = ''domtblout'' \<and> length (re_split ''A - B'') < 23" by code_simp
  have ed: "?d\<lparr>handle := snd (readline (handle ?d))\<rparr> = \<lparr>handle = ''C'', mode = ''domtblout''\<rparr>"
    by code_simp
  note t = short_line_format_error [OF at b c dt, of decimal_builtins, unfolded et]
  note d = short_line_format_error [OF ad b c dd, of decimal_builtins, unfolded ed]
  show ?thesis by (rule conjI [OF l conjI [OF n conjI [OF t d]]])
qed

text \<open>
  Claim C3 fails on the code for blank lines. A comment line is skipped
  (\<open>readHitsTBL_comment\<close>), but on a blank line \<^verbatim>\<open>line[0]\<close> raises \<^verbatim>\<open>IndexError\<close> before
  \<^verbatim>\<open>len(line) != 0\<close> is looked at, and the \<^verbatim>\<open>except\<close> clause returns \<^verbatim>\<open>{}\<close>: \<^verbatim>\<open>next()\<close>
  returns \<^verbatim>\<open>None\<close> although a well-formed data line follows, which only a further call
  returns.
\<close>

theorem blank_line_returns_sentinel:
  "HMMERParser_next decimal_builtins \<lparr>handle = [newline] @ tbl_line @ [newline], mode = ''tblout''\<rparr>
     = (Inr None, \<lparr>handle = tbl_line @ [newline], mode = ''tblout''\<rparr>)
   \<and> HMMERParser_next decimal_builtins \<lparr>handle = tbl_line @ [newline], mode = ''tblout''\<rparr>
     = (Inr (Some (TBL (Attrs tbl_hit))), \<lparr>handle = [], mode = ''tblout''\<rparr>)"
  by code_simp

lemma readline_Nil [simp]: "readline [] = ([], [])"
  by (simp add: readline_def)

lemma readHitsTBL_mode: "mode (snd (readHitsTBL B self)) = mode self"
proof (induction B self rule: readHitsTBL.induct)
  case (1 B self)
  show ?case
    using "1.IH" [OF refl refl]
    by (subst readHitsTBL.simps) (auto simp: Let_def split: sum.splits)
qed

lemma readHitsDOM_mode: "mode (snd (readHitsDOM B self)) = mode self"
proof (induction B self rule: readHitsDOM.induct)
  case (1 B self)
  show ?case
    using "1.IH" [OF refl refl]
    by (subst readHitsDOM.simps) (auto simp: Let_def split: sum.splits)
qed

lemma next_mode: "mode (snd (HMMERParser_next B self)) = mode self"
  using readHitsTBL_mode [of B self] readHitsDOM_mode [of B self]
  by (auto simp: HMMERParser_next_def split: prod.splits sum.splits option.splits)

lemma next_Inr_mode:
  assumes "fst (HMMERParser_next B self) = Inr r"
  shows "mode self = ''tblout'' \<or> mode self = ''domtblout''"
  using assms by (auto simp: HMMERParser_next_def split: if_splits)

lemma next_at_eof:
  assumes "handle self = []" and "mode self = ''tblout'' \<or> mode self = ''domtblout''"
  shows "HMMERParser_next B self = (Inr None, self)"
  using assms readHitsTBL_blank [of self B] readHitsDOM_blank [of self B]
  by (auto simp: HMMERParser_next_def)

text \<open>
  Claim C10. Once \<^verbatim>\<open>next()\<close> has returned \<^verbatim>\<open>None\<close> and the input is exhausted, any number
  \<open>n\<close> of further calls leaves the parser as it is, and the call after them returns
  \<^verbatim>\<open>None\<close> again, in both modes.
\<close>

theorem exhaustion_absorbing:
  assumes "HMMERParser_next B self = (Inr None, self')" and "handle self' = []"
  shows "((\<lambda>p. snd (HMMERParser_next B p)) ^^ n) self' = self' \<and>
         HMMERParser_next B (((\<lambda>p. snd (HMMERParser_next B p)) ^^ n) self') = (Inr None, self')"
proof -
  from assms(1) have "mode self = ''tblout'' \<or> mode self = ''domtblout''"
    using next_Inr_mode [of B self None] by simp
  moreover from assms(1) have "mode self' = mode self"
    using next_mode [of B self] by simp
  ultimately have m: "mode self' = ''tblout'' \<or> mode self' = ''domtblout''"
    by simp
  have stay: "HMMERParser_next B self' = (Inr None, self')"
    using assms(2) m by (rule next_at_eof)
  have "((\<lambda>p. snd (HMMERParser_next B p)) ^^ n) self' = self'"
    by (induction n) (simp_all add: stay)
  with stay show ?thesis by simp
qed

theorem exhaustion_absorbing_witness:
  "HMMERParser_next decimal_builtins \<lparr>handle = ''# end'', mode = ''domtblout''\<rparr>
     = (Inr None, \<lparr>handle = [], mode = ''domtblout''\<rparr>) \<and>
   ((\<lambda>p. snd (HMMERParser_next decimal_builtins p)) ^^ 3) \<lparr>handle = [], mode = ''domtblout''\<rparr>
     = \<lparr>handle = [], mode = ''domtblout''\<rparr> \<and>
   HMMERParser_next decimal_builtins
     (((\<lambda>p. snd (HMMERParser_next decimal_builtins p)) ^^ 3) \<lparr>handle = [], mode = ''domtblout''\<rparr>)
     = (Inr None, \<lparr>handle = [], mode = ''domtblout''\<rparr>)"
proof -
  have a: "HMMERParser_next decimal_builtins \<lparr>handle = ''# end'', mode = ''domtblout''\<rparr>
     = (Inr None, \<lparr>handle = [], mode = ''domtblout''\<rparr>)" by code_simp
  have b: "handle \<lparr>handle = [], mode = ''domtblout''\<rparr> = []" by simp
  show ?thesis by (rule conjI [OF a exhaustion_absorbing [OF a b, of 3]])
qed

text \<open>
  Claim C7, as amended. With the 18th column present before the description, the
  two-line input yields exactly one record, with target name \<^verbatim>\<open>A\<close>, query accession
  \<^verbatim>\<open>B\<close> (the query name, since the accession column is \<^verbatim>\<open>-\<close>) and description
  \<^verbatim>\<open>desc words here\<close>; the next call returns \<^verbatim>\<open>None\<close>.
\<close>

theorem scenario_18_columns:
  "HMMERParser_init scenario_input_18 ''tbl'' = Inr \<lparr>handle = scenario_input_18, mode = ''tblout''\<rparr> \<and>
   HMMERParser_next decimal_builtins \<lparr>handle = scenario_input_18, mode = ''tblout''\<rparr>
     = (Inr (Some (TBL (Attrs
          \<lparr>HmmerHitTBL.target_name = ''A'', target_accession = ''-'', query_name = ''B'',
           query_accession = ''B'',
           full_e_value = Decimal False 10 (- 1), full_score = Decimal False 20 (- 1),
           full_bias = Decimal False 30 (- 1), best_e_value = Decimal False 40 (- 1),
           best_score = Decimal False 50 (- 1), best_bias = Decimal False 60 (- 1),
           exp = Decimal False 7 0, reg = 8, clu = 9, ov = 10, env = 11, dom = 12, rep = 13,
           inc = 14, target_description = ''desc words here''\<rparr>))),
        \<lparr>handle = [], mode = ''tblout''\<rparr>) \<and>
   HMMERParser_next decimal_builtins \<lparr>handle = [], mode = ''tblout''\<rparr>
     = (Inr None, \<lparr>handle = [], mode = ''tblout''\<rparr>)"
  by code_simp

text \<open>
  C7 as stated fails: the line has 17 columns before \<^verbatim>\<open>desc\<close>, so \<^verbatim>\<open>desc\<close> is the 18th
  column, \<^verbatim>\<open>int('desc')\<close> raises \<^verbatim>\<open>ValueError\<close>, and no record is returned.
\<close>

theorem scenario_counterexample:
  "HMMERParser_init scenario_input ''tbl'' = Inr \<lparr>handle = scenario_input, mode = ''tblout''\<rparr> \<and>
   HMMERParser_next decimal_builtins \<lparr>handle = scenario_input, mode = ''tblout''\<rparr>
     = (Inl ValueError, \<lparr>handle = [], mode = ''tblout''\<rparr>)"
  by code_simp

lemma HmmerHitTBL_attrs_str:
  assumes "HmmerHitTBL_attrs B v = Some h"
  shows "HmmerHitTBL_str B (Attrs h) = Inr (join [tab]
     [v ! 0, v ! 1, v ! 2, (if v ! 3 = ''-'' then v ! 2 else v ! 3),
      str_float B (the (py_float B (v ! 4))), str_float B (the (py_float B (v ! 5))),
      str_float B (the (py_float B (v ! 6))), str_float B (the (py_float B (v ! 7))),
      str_float B (the (py_float B (v ! 8))), str_float B (the (py_float B (v ! 9))),
      str_float B (the (py_float B (v ! 10))),
      str_int B (the (py_int B (v ! 11))), str_int B (the (py_int B (v ! 12))),
      str_int B (the (py_int B (v ! 13))), str_int B (the (py_int B (v ! 14))),
      str_int B (the (py_int B (v ! 15))), str_int B (the (py_int B (v ! 16))),
      str_int B (the (py_int B (v ! 17))),
      v ! 18])"
  using assms
  by (auto simp: HmmerHitTBL_attrs_def HmmerHitTBL_str_def split: bind_splits)

lemma refined_match_19:
  assumes "length v = 19"
  shows "take 18 v @ [join sep (drop 18 v)] = v"
proof -
  from assms obtain x where "drop 18 v = [x]"
    by (cases "drop 18 v"; cases "tl (drop 18 v)") (auto simp: drop_Suc dest: arg_cong [where f = length])
  then have "take 18 v @ [join sep (drop 18 v)] = take 18 v @ drop 18 v"
    by simp
  then show ?thesis by simp
qed

text \<open>
  Claim C5, as amended. For a short-form line of exactly 19 fields that parses,
  \<^verbatim>\<open>__str__\<close> of the record joins 19 fields with tabs: target name, target accession,
  query name and description are the fields of the line byte for byte; the query
  accession is the field of the line unless that is \<^verbatim>\<open>-\<close>, in which case it is the query
  name; every numeric field is \<^verbatim>\<open>str\<close> of the parsed number.
\<close>

theorem reserialize_fields:
  assumes "line = rstrip (fst (readline (handle self)))"
    and "line \<noteq> []" and "hd line \<noteq> CHR ''#''"
    and "v = re_split line" and "length v = 19"
    and "mode self = ''tblout''"
    and "fst (HMMERParser_next B self) = Inr (Some (TBL hit))"
  shows "HmmerHitTBL_str B hit = Inr (join [tab]
     [v ! 0, v ! 1, v ! 2, (if v ! 3 = ''-'' then v ! 2 else v ! 3),
      str_float B (the (py_float B (v ! 4))), str_float B (the (py_float B (v ! 5))),
      str_float B (the (py_float B (v ! 6))), str_float B (the (py_float B (v ! 7))),
      str_float B (the (py_float B (v ! 8))), str_float B (the (py_float B (v ! 9))),
      str_float B (the (py_float B (v ! 10))),
      str_int B (the (py_int B (v ! 11))), str_int B (the (py_int B (v ! 12))),
      str_int B (the (py_int B (v ! 13))), str_int B (the (py_int B (v ! 14))),
      str_int B (the (py_int B (v ! 15))), str_int B (the (py_int B (v ! 16))),
      str_int B (the (py_int B (v ! 17))),
      v ! 18])"
proof -
  have rm: "take 18 v @ [join '' '' (drop 18 v)] = v"
    using assms(5) by (rule refined_match_19)
  have "fst (readHitsTBL B self) = Inr (Some hit)"
    using assms(6,7) by (auto simp: HMMERParser_next_def split: prod.splits sum.splits option.splits)
  then have "HmmerHitTBL_init B v = Inr hit"
    using readHitsTBL_data [OF assms(1-3), of B] assms(4,5) rm
    by (auto simp: Let_def split: sum.splits)
  then obtain h where "hit = Attrs h" and "HmmerHitTBL_attrs B v = Some h"
    using assms(5) by (auto simp: HmmerHitTBL_init_def split: option.splits)
  then show ?thesis
    using HmmerHitTBL_attrs_str [of B v h] by simp
qed

theorem reserialize_fields_witness:
  "tbl_line = rstrip (fst (readline (tbl_line @ [newline]))) \<and>
   length (re_split tbl_line) = 19 \<and>
   fst (HMMERParser_next decimal_builtins \<lparr>handle = tbl_line @ [newline], mode = ''tblout''\<rparr>)
     = Inr (Some (TBL (Attrs tbl_hit))) \<and>
   HmmerHitTBL_str decimal_builtins (Attrs tbl_hit) = Inr (join [tab]
     [''A'', ''-'', ''B'', ''B'', ''1.0'', ''2.0'', ''3.0'', ''4.0'', ''5.0'', ''6.0'', ''7.0'',
      ''8'', ''9'', ''10'', ''11'', ''12'', ''13'', ''14'', ''desc''])"
proof -
  let ?p = "\<lparr>handle = tbl_line @ [newline], mode = ''tblout''\<rparr>"
  let ?v = "[''A'', ''-'', ''B'', ''-'', ''1.0'', ''2.0'', ''3.0'', ''4.0'', ''5.0'', ''6.0'', ''7.0'',
      ''8'', ''9'', ''10'', ''11'', ''12'', ''13'', ''14'', ''desc'']"
  have l: "tbl_line = rstrip (fst (readline (tbl_line @ [newline])))" by code_simp
  have n: "length (re_split tbl_line) = 19" by code_simp
  have a: "tbl_line = rstrip (fst (readline (handle ?p)))" by code_simp
  have b: "tbl_line \<noteq> []" and c: "hd tbl_line \<noteq> CHR ''#''" by code_simp+
  have d: "?v = re_split tbl_line" by code_simp
  have e: "length ?v = 19" by simp
  have f: "mode ?p = ''tblout''" by simp
  have g: "fst (HMMERParser_next decimal_builtins ?p) = Inr (Some (TBL (Attrs tbl_hit)))"
    by code_simp
  have ev: "map (\<lambda>s. dec_str_float (the (dec_float s)))
              [''1.0'', ''2.0'', ''3.0'', ''4.0'', ''5.0'', ''6.0'', ''7.0'']
            = [''1.0'', ''2.0'', ''3.0'', ''4.0'', ''5.0'', ''6.0'', ''7.0'']"
    "map (\<lambda>s. dec_str_int (the (dec_int s))) [''8'', ''9'', ''10'', ''11'', ''12'', ''13'', ''14'']
            = [''8'', ''9'', ''10'', ''11'', ''12'', ''13'', ''14'']"
    by code_simp+
  from reserialize_fields [OF a b c d e f g] ev
  have s: "HmmerHitTBL_str decimal_builtins (Attrs tbl_hit) = Inr (join [tab]
     [''A'', ''-'', ''B'', ''B'', ''1.0'', ''2.0'', ''3.0'', ''4.0'', ''5.0'', ''6.0'', ''7.0'',
      ''8'', ''9'', ''10'', ''11'', ''12'', ''13'', ''14'', ''desc''])"
    by (simp add: decimal_builtins_def)
  show ?thesis by (rule conjI [OF l conjI [OF n conjI [OF g s]]])
qed

text \<open>
  C5 as stated fails on a line whose query accession is \<^verbatim>\<open>-\<close>: the fourth field comes
  back as the query name \<^verbatim>\<open>B\<close>. It also fails on numbers that are not written the way
  \<^verbatim>\<open>str\<close> writes them: \<^verbatim>\<open>7\<close> in a float column comes back as \<^verbatim>\<open>7.0\<close>, and \<^verbatim>\<open>08\<close> in an
  integer column as \<^verbatim>\<open>8\<close>.
\<close>

theorem roundtrip_counterexample:
  "length (re_split tbl_line) = 19 \<and>
   HMMERParser_next decimal_builtins \<lparr>handle = tbl_line, mode = ''tblout''\<rparr>
     = (Inr (Some (TBL (Attrs tbl_hit))), \<lparr>handle = [], mode = ''tblout''\<rparr>) \<and>
   map_sum id (take 18 \<circ> re_split) (HmmerHitTBL_str decimal_builtins (Attrs tbl_hit))
     = Inr [''A'', ''-'', ''B'', ''B'', ''1.0'', ''2.0'', ''3.0'', ''4.0'', ''5.0'', ''6.0'', ''7.0'',
            ''8'', ''9'', ''10'', ''11'', ''12'', ''13'', ''14''] \<and>
   take 18 (re_split tbl_line)
     = [''A'', ''-'', ''B'', ''-'', ''1.0'', ''2.0'', ''3.0'', ''4.0'', ''5.0'', ''6.0'', ''7.0'',
        ''8'', ''9'', ''10'', ''11'', ''12'', ''13'', ''14''] \<and>
   length (re_split tbl_line_numbers) = 19 \<and>
   (case HMMERParser_next decimal_builtins \<lparr>handle = tbl_line_numbers, mode = ''tblout''\<rparr> of
      (Inr (Some (TBL hit)), p) \<Rightarrow>
        map_sum id (take 18 \<circ> re_split) (HmmerHitTBL_str decimal_builtins hit)
      | (Inr (Some (DOM hit)), p) \<Rightarrow> Inr []
      | (Inr None, p) \<Rightarrow> Inr []
      | (Inl e, p) \<Rightarrow> Inl e)
     = Inr [''A'', ''-'', ''B'', ''X'', ''1.0'', ''2.0'', ''3.0'', ''4.0'', ''5.0'', ''6.0'', ''7.0'',
            ''8'', ''9'', ''10'', ''11'', ''12'', ''13'', ''14''] \<and>
   take 18 (re_split tbl_line_numbers)
     = [''A'', ''-'', ''B'', ''X'', ''1.0'', ''2.0'', ''3.0'', ''4.0'', ''5.0'', ''6.0'', ''7'',
        ''08'', ''9'', ''10'', ''11'', ''12'', ''13'', ''14'']"
  by code_simp

section \<open>Properties of the extractor\<close>

subsection \<open>The steps, case by case\<close>

lemma main_stepE:
  assumes "main_step c s = Some s'"
  obtains
    (start_writer) "mainProc s = MStartWriter"
      "s' = s\<lparr>writeProc := ROpen, mainProc := MStartWorker 0\<rparr>"
  | (start_worker) i where "mainProc s = MStartWorker i" "i < length (calcProc s)"
      "s' = s\<lparr>calcProc := (calcProc s)[i := WInit], mainProc := MStartWorker (Suc i)\<rparr>"
  | (started) i where "mainProc s = MStartWorker i" "\<not> i < length (calcProc s)"
      "s' = s\<lparr>mainProc := MJoinWorker 0\<rparr>"
  | (join_worker) i where "mainProc s = MJoinWorker i" "i < length (calcProc s)"
      "terminated (calcProc s ! i)" "s' = s\<lparr>mainProc := MJoinWorker (Suc i)\<rparr>"
  | (joined) i where "mainProc s = MJoinWorker i" "\<not> i < length (calcProc s)"
      "s' = s\<lparr>mainProc := MPutStop\<rparr>"
  | (put_stop) "mainProc s = MPutStop"
      "s' = s\<lparr>writerQueue := writerQueue s @ [None], mainProc := MJoinWriter\<rparr>"
  | (join_writer) "mainProc s = MJoinWriter" "writeProc s = RExit \<or> writeProc s = RRaised"
      "s' = s\<lparr>mainProc := MReturned\<rparr>"
  using assms by (auto simp: main_step.simps split: main.splits if_splits)

lemma worker_stepE:
  assumes "worker_step c i s = Some s'"
  obtains
    (init) "i < length (calcProc s)" "calcProc s ! i = WInit" "hmmer_installed c"
      "s' = s\<lparr>calcProc := (calcProc s)[i := WGet]\<rparr>"
  | (init_raises) "i < length (calcProc s)" "calcProc s ! i = WInit" "\<not> hmmer_installed c"
      "s' = s\<lparr>calcProc := (calcProc s)[i := WRaised]\<rparr>"
  | (get_stop) q where "i < length (calcProc s)" "calcProc s ! i = WGet"
      "workerQueue s = None # q"
      "s' = s\<lparr>workerQueue := q, calcProc := (calcProc s)[i := WExit]\<rparr>"
  | (get_task) modelAcc fetchFilename q where "i < length (calcProc s)" "calcProc s ! i = WGet"
      "workerQueue s = Some (modelAcc, fetchFilename) # q"
      "s' = s\<lparr>workerQueue := q, calcProc := (calcProc s)[i := WFetch modelAcc fetchFilename]\<rparr>"
  | (fetch) modelAcc fetchFilename where "i < length (calcProc s)"
      "calcProc s ! i = WFetch modelAcc fetchFilename"
      "s' = s\<lparr>fs := (fs s)(fetchFilename \<mapsto> hmmfetch c (fs s (hmmModelFile c)) modelAcc),
               calcProc := (calcProc s)[i := WPut modelAcc fetchFilename]\<rparr>"
  | (put) modelAcc fetchFilename where "i < length (calcProc s)"
      "calcProc s ! i = WPut modelAcc fetchFilename"
      "s' = s\<lparr>writerQueue := writerQueue s @ [Some (modelAcc, fetchFilename)],
               calcProc := (calcProc s)[i := WGet]\<rparr>"
  using assms
  by (auto simp: worker_step.simps split: worker.splits if_splits list.splits option.splits)

lemma writer_stepE:
  assumes "writer_step c s = Some s'"
  obtains
    (open_out) "writeProc s = ROpen"
      "s' = s\<lparr>fs := (fs s)(ouputModelFile c \<mapsto> []), writeProc := RGet\<rparr>"
  | (get_stop) q where "writeProc s = RGet" "writerQueue s = None # q"
      "s' = s\<lparr>writerQueue := q, writeProc := RClose\<rparr>"
  | (get_task) modelAcc fetchFilename q where "writeProc s = RGet"
      "writerQueue s = Some (modelAcc, fetchFilename) # q"
      "s' = s\<lparr>writerQueue := q, writeProc := RCopy modelAcc fetchFilename\<rparr>"
  | (copy_missing) modelAcc fetchFilename where "writeProc s = RCopy modelAcc fetchFilename"
      "fs s fetchFilename = None" "s' = s\<lparr>writeProc := RRaised\<rparr>"
  | (copy) modelAcc fetchFilename content where "writeProc s = RCopy modelAcc fetchFilename"
      "fs s fetchFilename = Some content"
      "s' = s\<lparr>fs := (fs s)(ouputModelFile c \<mapsto>
                   (case fs s (ouputModelFile c) of None \<Rightarrow> [] | Some old \<Rightarrow> old) @ content),
               writeProc := RRemove modelAcc fetchFilename\<rparr>"
  | (remove_missing) modelAcc fetchFilename where "writeProc s = RRemove modelAcc fetchFilename"
      "fs s fetchFilename = None" "s' = s\<lparr>writeProc := RRaised\<rparr>"
  | (remove) modelAcc fetchFilename where "writeProc s = RRemove modelAcc fetchFilename"
      "fs s fetchFilename \<noteq> None"
      "s' = s\<lparr>fs := (fs s)(fetchFilename := None), writeProc := RGet\<rparr>"
  | (close) "writeProc s = RClose" "s' = s\<lparr>writeProc := RExit\<rparr>"
  using assms
  by (auto simp: writer_step.simps split: writer.splits if_splits list.splits option.splits)

subsection \<open>The control invariant\<close>

lemma alive_update:
  "i < length ws \<Longrightarrow>
     alive (ws[i := y]) + (if ws ! i \<noteq> WExit then 1 else 0) = alive ws + (if y \<noteq> WExit then 1 else 0)"
proof (induction ws arbitrary: i)
  case Nil
  then show ?case by simp
next
  case (Cons w ws)
  show ?case
  proof (cases i)
    case 0
    then show ?thesis by (simp add: alive_def)
  next
    case (Suc n)
    with Cons.prems have "n < length ws" by simp
    from Cons.IH [OF this] Suc show ?thesis by (auto simp: alive_def split: if_splits)
  qed
qed

lemma alive_update_same:
  "i < length ws \<Longrightarrow> ws ! i \<noteq> WExit \<Longrightarrow> y \<noteq> WExit \<Longrightarrow> alive (ws[i := y]) = alive ws"
  using alive_update [of i ws y] by simp

lemma alive_update_exit:
  "i < length ws \<Longrightarrow> ws ! i \<noteq> WExit \<Longrightarrow> alive ws = Suc (alive (ws[i := WExit]))"
  using alive_update [of i ws WExit] by simp

lemma alive_pos: "i < length ws \<Longrightarrow> ws ! i \<noteq> WExit \<Longrightarrow> 0 < alive ws"
  using alive_update_exit [of i ws] by simp

lemma alive_zero: "\<forall>j < length ws. ws ! j = WExit \<Longrightarrow> alive ws = 0"
  by (auto simp: alive_def filter_empty_conv in_set_conv_nth)

lemma no_None_map_Some:
  assumes "None \<notin> set q"
  shows "\<exists>ts. q = map Some ts"
proof -
  from assms have "q = map Some (map the q)"
    by (induction q) auto
  then show ?thesis ..
qed

lemma init_ctl: "ctl c (extract_start c ids uuids files)"
  by (auto simp: ctl_def queue_ok_def main_ok_def stop_ok_def extract_start_def alive_def)

lemma main_step_ctl:
  assumes "ctl c s" and "main_step c s = Some s'"
  shows "ctl c s'"
  using assms(2)
proof (cases rule: main_stepE)
  case start_writer
  with assms(1) show ?thesis
    by (auto simp: ctl_def queue_ok_def main_ok_def stop_ok_def)
next
  case (start_worker i)
  with assms(1) have "calcProc s ! i = WNotStarted"
    by (auto simp: ctl_def main_ok_def)
  with start_worker assms(1) show ?thesis
    by (auto simp: ctl_def queue_ok_def main_ok_def stop_ok_def nth_list_update alive_update_same)
next
  case (started i)
  with assms(1) show ?thesis
    by (auto simp: ctl_def queue_ok_def main_ok_def stop_ok_def)
next
  case (join_worker i)
  with assms(1) show ?thesis
    by (auto simp: ctl_def queue_ok_def main_ok_def stop_ok_def terminated_def less_Suc_eq)
next
  case (joined i)
  with assms(1) show ?thesis
    by (auto simp: ctl_def queue_ok_def main_ok_def stop_ok_def)
next
  case put_stop
  with assms(1) show ?thesis
    using no_None_map_Some [of "writerQueue s"]
    by (auto simp: ctl_def queue_ok_def main_ok_def stop_ok_def)
next
  case join_writer
  with assms(1) show ?thesis
    by (auto simp: ctl_def queue_ok_def main_ok_def stop_ok_def)
qed

lemma main_ok_worker_update:
  assumes "main_ok c s" and "i < length (calcProc s)"
    and "calcProc s ! i \<noteq> WNotStarted" and "calcProc s ! i \<noteq> WExit" and "y \<noteq> WNotStarted"
    and "mainProc s' = mainProc s" and "writeProc s' = writeProc s"
    and "calcProc s' = (calcProc s)[i := y]"
  shows "main_ok c s'"
  using assms by (cases "mainProc s") (auto simp: main_ok_def nth_list_update)

lemma worker_running_main:
  assumes "main_ok c s" and "i < length (calcProc s)"
    and "calcProc s ! i \<noteq> WNotStarted" and "calcProc s ! i \<noteq> WExit"
  shows "mainProc s \<noteq> MJoinWriter \<and> mainProc s \<noteq> MReturned"
  using assms by (cases "mainProc s") (auto simp: main_ok_def)

lemma main_ok_writer_update:
  assumes "main_ok c s" and "writeProc s \<noteq> RExit" and "writeProc s \<noteq> RRaised"
    and "writeProc s' \<noteq> RNotStarted" and "writeProc s \<noteq> RNotStarted"
    and "mainProc s' = mainProc s" and "calcProc s' = calcProc s"
  shows "main_ok c s'"
  using assms by (cases "mainProc s") (auto simp: main_ok_def)

lemma stop_ok_same:
  assumes "stop_ok s" and "mainProc s' = mainProc s" and "writeProc s' = writeProc s"
    and "writerQueue s' = writerQueue s"
  shows "stop_ok s'"
  using assms by (simp add: stop_ok_def)

lemma queue_ok_worker_update:
  assumes "queue_ok s" and "i < length (calcProc s)"
    and "calcProc s ! i \<noteq> WExit" and "y \<noteq> WExit"
    and "workerQueue s' = workerQueue s" and "calcProc s' = (calcProc s)[i := y]"
  shows "queue_ok s'"
  using assms by (auto simp: queue_ok_def alive_update_same nth_list_update)

lemma queue_ok_same:
  assumes "queue_ok s" and "workerQueue s' = workerQueue s" and "calcProc s' = calcProc s"
  shows "queue_ok s'"
  using assms by (simp add: queue_ok_def)

lemma not_raised_update:
  assumes "\<forall>j < length ws. ws ! j \<noteq> WRaised" and "y \<noteq> WRaised"
  shows "\<forall>j < length (ws[i := y]). ws[i := y] ! j \<noteq> WRaised"
proof (intro allI impI)
  fix j
  assume "j < length (ws[i := y])"
  with assms show "ws[i := y] ! j \<noteq> WRaised"
    by (cases "i = j") simp_all
qed

lemma ctlI:
  assumes "length (calcProc s) = totalThreads c"
    and "\<forall>j < length (calcProc s). calcProc s ! j \<noteq> WRaised"
    and "queue_ok s" and "main_ok c s" and "stop_ok s"
  shows "ctl c s"
  using assms by (simp add: ctl_def)

lemma ctlD:
  assumes "ctl c s"
  shows "length (calcProc s) = totalThreads c"
    and "\<forall>j < length (calcProc s). calcProc s ! j \<noteq> WRaised"
    and "queue_ok s" and "main_ok c s" and "stop_ok s"
  using assms by (simp_all add: ctl_def)

lemma worker_step_ctl:
  assumes "ctl c s" and "hmmer_installed c" and "worker_step c i s = Some s'"
  shows "ctl c s'"
  using assms(3)
proof (cases rule: worker_stepE)
  case init
  show ?thesis
  proof (rule ctlI)
    show "length (calcProc s') = totalThreads c"
      using init ctlD(1) [OF assms(1)] by simp
    show "\<forall>j < length (calcProc s'). calcProc s' ! j \<noteq> WRaised"
      using init not_raised_update [OF ctlD(2) [OF assms(1)], of WGet i] by simp
    show "queue_ok s'"
      using init by (intro queue_ok_worker_update [OF ctlD(3) [OF assms(1)] init(1)]) auto
    show "main_ok c s'"
      using init by (intro main_ok_worker_update [OF ctlD(4) [OF assms(1)] init(1)]) auto
    show "stop_ok s'"
      using init by (intro stop_ok_same [OF ctlD(5) [OF assms(1)]]) auto
  qed
next
  case init_raises
  with assms(2) show ?thesis by simp
next
  case (get_stop q)
  from ctlD(3) [OF assms(1)] obtain ts
    where q: "workerQueue s = map Some ts @ replicate (alive (calcProc s)) None"
    by (auto simp: queue_ok_def)
  with get_stop have ts: "ts = []" by (cases ts) auto
  from get_stop have a: "alive (calcProc s) = Suc (alive ((calcProc s)[i := WExit]))"
    by (intro alive_update_exit) auto
  show ?thesis
  proof (rule ctlI)
    show "length (calcProc s') = totalThreads c"
      using get_stop ctlD(1) [OF assms(1)] by simp
    show "\<forall>j < length (calcProc s'). calcProc s' ! j \<noteq> WRaised"
      using get_stop not_raised_update [OF ctlD(2) [OF assms(1)], of WExit i] by simp
    from q ts a get_stop have "q = replicate (alive ((calcProc s)[i := WExit])) None"
      by simp
    then show "queue_ok s'"
      using get_stop by (auto simp: queue_ok_def)
    show "main_ok c s'"
      using get_stop ctlD(4) [OF assms(1)]
      by (cases "mainProc s") (auto simp: main_ok_def nth_list_update)
    show "stop_ok s'"
      using get_stop by (intro stop_ok_same [OF ctlD(5) [OF assms(1)]]) auto
  qed
next
  case (get_task modelAcc fetchFilename q)
  from ctlD(3) [OF assms(1)] obtain ts
    where q: "workerQueue s = map Some ts @ replicate (alive (calcProc s)) None"
    and e: "ts = [] \<or> (\<forall>j < length (calcProc s). calcProc s ! j \<noteq> WExit)"
    by (auto simp: queue_ok_def)
  from q get_task have "ts \<noteq> []"
    by (cases "alive (calcProc s)") auto
  with q get_task obtain ts' where ts': "ts = (modelAcc, fetchFilename) # ts'"
    by (cases ts) auto
  show ?thesis
  proof (rule ctlI)
    show "length (calcProc s') = totalThreads c"
      using get_task ctlD(1) [OF assms(1)] by simp
    show "\<forall>j < length (calcProc s'). calcProc s' ! j \<noteq> WRaised"
      using get_task not_raised_update [OF ctlD(2) [OF assms(1)], of "WFetch modelAcc fetchFilename" i]
      by simp
    show "queue_ok s'"
      using q e ts' get_task by (auto simp: queue_ok_def nth_list_update alive_update_same)
    show "main_ok c s'"
      using get_task by (intro main_ok_worker_update [OF ctlD(4) [OF assms(1)] get_task(1)]) auto
    show "stop_ok s'"
      using get_task by (intro stop_ok_same [OF ctlD(5) [OF assms(1)]]) auto
  qed
next
  case (fetch modelAcc fetchFilename)
  show ?thesis
  proof (rule ctlI)
    show "length (calcProc s') = totalThreads c"
      using fetch ctlD(1) [OF assms(1)] by simp
    show "\<forall>j < length (calcProc s'). calcProc s' ! j \<noteq> WRaised"
      using fetch not_raised_update [OF ctlD(2) [OF assms(1)], of "WPut modelAcc fetchFilename" i]
      by simp
    show "queue_ok s'"
      using fetch by (intro queue_ok_worker_update [OF ctlD(3) [OF assms(1)] fetch(1)]) auto
    show "main_ok c s'"
      using fetch by (intro main_ok_worker_update [OF ctlD(4) [OF assms(1)] fetch(1)]) auto
    show "stop_ok s'"
      using fetch by (intro stop_ok_same [OF ctlD(5) [OF assms(1)]]) auto
  qed
next
  case (put modelAcc fetchFilename)
  have run: "mainProc s \<noteq> MJoinWriter \<and> mainProc s \<noteq> MReturned"
    using put by (intro worker_running_main [OF ctlD(4) [OF assms(1)] put(1)]) auto
  show ?thesis
  proof (rule ctlI)
    show "length (calcProc s') = totalThreads c"
      using put ctlD(1) [OF assms(1)] by simp
    show "\<forall>j < length (calcProc s'). calcProc s' ! j \<noteq> WRaised"
      using put not_raised_update [OF ctlD(2) [OF assms(1)], of WGet i] by simp
    show "queue_ok s'"
      using put by (intro queue_ok_worker_update [OF ctlD(3) [OF assms(1)] put(1)]) auto
    show "main_ok c s'"
      using put by (intro main_ok_worker_update [OF ctlD(4) [OF assms(1)] put(1)]) auto
    show "stop_ok s'"
      using put run ctlD(5) [OF assms(1)] by (simp add: stop_ok_def)
  qed
qed

lemma writer_step_ctl:
  assumes "ctl c s" and "writer_step c s = Some s'"
  shows "ctl c s'"
proof (rule ctlI)
  have same: "calcProc s' = calcProc s \<and> workerQueue s' = workerQueue s \<and>
    mainProc s' = mainProc s"
    using assms(2) by (cases rule: writer_stepE) simp_all
  show "length (calcProc s') = totalThreads c"
    using same ctlD(1) [OF assms(1)] by simp
  show "\<forall>j < length (calcProc s'). calcProc s' ! j \<noteq> WRaised"
    using same ctlD(2) [OF assms(1)] by simp
  show "queue_ok s'"
    using same by (intro queue_ok_same [OF ctlD(3) [OF assms(1)]]) auto
  from assms(2) have w: "writeProc s \<noteq> RExit \<and> writeProc s \<noteq> RRaised \<and>
      writeProc s' \<noteq> RNotStarted \<and> writeProc s \<noteq> RNotStarted"
    by (cases rule: writer_stepE) simp_all
  show "main_ok c s'"
    using w same by (intro main_ok_writer_update [OF ctlD(4) [OF assms(1)]]) auto
  from assms(2) show "stop_ok s'"
  proof (cases rule: writer_stepE)
    case open_out
    with ctlD(5) [OF assms(1)] show ?thesis by (simp add: stop_ok_def)
  next
    case (get_stop q)
    have "q = []" if "writerQueue s = map Some ts @ [None]" for ts
      using that get_stop by (cases ts) auto
    with get_stop ctlD(5) [OF assms(1)] show ?thesis
      by (auto simp: stop_ok_def split: if_splits)
  next
    case (get_task modelAcc fetchFilename q)
    have "\<exists>ts'. q = map Some ts' @ [None]" if "writerQueue s = map Some ts @ [None]" for ts
      using that get_task by (cases ts) auto
    with get_task ctlD(5) [OF assms(1)] show ?thesis
      by (auto simp: stop_ok_def split: if_splits)
  next
    case (copy_missing modelAcc fetchFilename)
    with ctlD(5) [OF assms(1)] show ?thesis by (simp add: stop_ok_def)
  next
    case (copy modelAcc fetchFilename content)
    with ctlD(5) [OF assms(1)] show ?thesis by (simp add: stop_ok_def)
  next
    case (remove_missing modelAcc fetchFilename)
    with ctlD(5) [OF assms(1)] show ?thesis by (simp add: stop_ok_def)
  next
    case (remove modelAcc fetchFilename)
    with ctlD(5) [OF assms(1)] show ?thesis by (simp add: stop_ok_def)
  next
    case close
    with ctlD(5) [OF assms(1)] show ?thesis by (auto simp: stop_ok_def split: if_splits)
  qed
qed

lemma step_ctl:
  assumes "ctl c s" and "hmmer_installed c" and "step c p s = Some s'"
  shows "ctl c s'"
proof (cases p)
  case Main
  with assms(3) have "main_step c s = Some s'" by simp
  with assms(1) show ?thesis by (rule main_step_ctl)
next
  case Writer
  with assms(3) have "writer_step c s = Some s'" by simp
  with assms(1) show ?thesis by (rule writer_step_ctl)
next
  case (Worker i)
  with assms(3) have "worker_step c i s = Some s'" by simp
  with assms(1,2) show ?thesis by (rule worker_step_ctl)
qed

lemma run_Cons_Some:
  assumes "run c (p # ps) s = Some s'"
  obtains t where "step c p s = Some t" and "run c ps t = Some s'"
  using assms by (cases "step c p s") auto

subsection \<open>No deadlock, and a bound on the length of a run\<close>

lemma progress:
  assumes "ctl c s" and "mainProc s \<noteq> MReturned"
  shows "\<exists>p s'. step c p s = Some s'"
proof -
  have main: "\<exists>p s'. step c p s = Some s'" if "main_step c s = Some t" for t
    using that step.simps(1) [of c s] by metis
  have writer: "\<exists>p s'. step c p s = Some s'" if "writer_step c s = Some t" for t
    using that step.simps(2) [of c s] by metis
  have worker: "\<exists>p s'. step c p s = Some s'" if "worker_step c i s = Some t" for t i
    using that step.simps(3) [of c i s] by metis
  show ?thesis
  proof (cases "mainProc s")
    case MStartWriter
    then show ?thesis by (intro main) (simp add: main_step.simps)
  next
    case (MStartWorker i)
    then have "\<exists>t. main_step c s = Some t" by (simp add: main_step.simps)
    then show ?thesis using main by blast
  next
    case (MJoinWorker i)
    show ?thesis
    proof (cases "i < length (calcProc s) \<and> \<not> terminated (calcProc s ! i)")
      case False
      with MJoinWorker have "\<exists>t. main_step c s = Some t" by (auto simp: main_step.simps)
      then show ?thesis using main by blast
    next
      case True
      with MJoinWorker ctlD(4) [OF assms(1)] have ns: "calcProc s ! i \<noteq> WNotStarted"
        by (simp add: main_ok_def)
      from True have "0 < alive (calcProc s)"
        by (intro alive_pos [of i]) (auto simp: terminated_def)
      with ctlD(3) [OF assms(1)] have "workerQueue s \<noteq> []"
        by (auto simp: queue_ok_def)
      with True ns have "\<exists>t. worker_step c i s = Some t"
        by (cases "calcProc s ! i")
           (auto simp: worker_step.simps terminated_def split: list.splits option.splits)
      then show ?thesis using worker by blast
    qed
  next
    case MPutStop
    then show ?thesis by (intro main) (simp add: main_step.simps)
  next
    case MJoinWriter
    show ?thesis
    proof (cases "writeProc s = RExit \<or> writeProc s = RRaised")
      case True
      with MJoinWriter have "\<exists>t. main_step c s = Some t" by (auto simp: main_step.simps)
      then show ?thesis using main by blast
    next
      case False
      from MJoinWriter ctlD(4) [OF assms(1)] have ns: "writeProc s \<noteq> RNotStarted"
        by (simp add: main_ok_def)
      from MJoinWriter ctlD(5) [OF assms(1)] have "writeProc s = RGet \<longrightarrow> writerQueue s \<noteq> []"
        by (auto simp: stop_ok_def)
      with False ns have "\<exists>t. writer_step c s = Some t"
        by (cases "writeProc s")
           (auto simp: writer_step.simps split: list.splits option.splits)
      then show ?thesis using writer by blast
    qed
  next
    case MReturned
    with assms(2) show ?thesis by simp
  qed
qed

lemma sum_list_map_update:
  "i < length xs \<Longrightarrow>
     sum_list (map f (xs[i := y])) + f (xs ! i) = sum_list (map f xs) + (f y :: nat)"
proof (induction xs arbitrary: i)
  case Nil
  then show ?case by simp
next
  case (Cons x xs)
  show ?case
  proof (cases i)
    case 0
    then show ?thesis by simp
  next
    case (Suc n)
    with Cons.prems have "n < length xs" by simp
    from Cons.IH [OF this] Suc show ?thesis by simp
  qed
qed

lemma main_step_decreases:
  assumes "main_step c s = Some s'"
  shows "steps_left s' < steps_left s"
  using assms
proof (cases rule: main_stepE)
  case (start_worker i)
  with sum_list_map_update [of i "calcProc s" worker_rank WInit] show ?thesis
    by (simp add: steps_left_def)
qed (auto simp: steps_left_def)

lemma worker_step_decreases:
  assumes "worker_step c i s = Some s'"
  shows "steps_left s' < steps_left s"
  using assms
proof (cases rule: worker_stepE)
  case init
  with sum_list_map_update [of i "calcProc s" worker_rank WGet]
  show ?thesis by (simp add: steps_left_def)
next
  case init_raises
  with sum_list_map_update [of i "calcProc s" worker_rank WRaised]
  show ?thesis by (simp add: steps_left_def)
next
  case (get_stop q)
  with sum_list_map_update [of i "calcProc s" worker_rank WExit]
  show ?thesis by (simp add: steps_left_def)
next
  case (get_task modelAcc fetchFilename q)
  with sum_list_map_update [of i "calcProc s" worker_rank "WFetch modelAcc fetchFilename"]
  show ?thesis by (simp add: steps_left_def)
next
  case (fetch modelAcc fetchFilename)
  with sum_list_map_update [of i "calcProc s" worker_rank "WPut modelAcc fetchFilename"]
  show ?thesis by (simp add: steps_left_def)
next
  case (put modelAcc fetchFilename)
  with sum_list_map_update [of i "calcProc s" worker_rank WGet]
  show ?thesis by (simp add: steps_left_def)
qed

lemma writer_step_decreases:
  assumes "writer_step c s = Some s'"
  shows "steps_left s' < steps_left s"
  using assms by (cases rule: writer_stepE) (simp_all add: steps_left_def)

lemma step_decreases:
  assumes "step c p s = Some s'"
  shows "steps_left s' < steps_left s"
  using assms main_step_decreases worker_step_decreases writer_step_decreases
  by (cases p) simp_all

lemma run_length:
  assumes "run c ps s = Some s'"
  shows "length ps + steps_left s' \<le> steps_left s"
  using assms
proof (induction ps arbitrary: s)
  case Nil
  then show ?case by simp
next
  case (Cons p ps)
  from Cons.prems obtain t where t: "step c p s = Some t" and r: "run c ps t = Some s'"
    by (rule run_Cons_Some)
  from r have "length ps + steps_left s' \<le> steps_left t" by (rule Cons.IH)
  with step_decreases [OF t] show ?case by simp
qed

lemma steps_left_start:
  "steps_left (extract_start c ids uuids files)
     = 9 + 5 * totalThreads c + 6 * min (length ids) (length uuids)"
  by (simp add: steps_left_def extract_start_def comp_def sum_list_replicate sum_list_triv)

subsection \<open>The data invariant\<close>

lemma queued_map_Some [simp]: "queued (map Some ts) = ts"
  by (induction ts) auto

lemma queued_append [simp]: "queued (q @ r) = queued q @ queued r"
  by (induction q rule: queued.induct) auto

lemma queued_replicate_None [simp]: "queued (replicate n None) = []"
  by (induction n) auto

lemma init_dat:
  "dat c (zip ids (map tmp_file uuids)) (files (hmmModelFile c)) []
     (extract_start c ids uuids files)"
  by (simp add: dat_def extract_start_def todo_def ready_def)

lemma mset_concat_map_update:
  "i < length ws \<Longrightarrow>
     mset (concat (map f (ws[i := y]))) + mset (f (ws ! i)) = mset (concat (map f ws)) + mset (f y)"
proof (induction ws arbitrary: i)
  case Nil
  then show ?case by simp
next
  case (Cons w ws)
  show ?case
  proof (cases i)
    case 0
    then show ?thesis by simp
  next
    case (Suc n)
    with Cons.prems have "n < length ws" by simp
    from Cons.IH [OF this] Suc show ?thesis by (simp add: ac_simps)
  qed
qed

lemma slots_distinct:
  assumes "mset xs = mset tasks" and "distinct (map snd tasks)"
  shows "distinct (map snd xs)"
proof -
  from assms(1) have "mset (map snd xs) = mset (map snd tasks)" by simp
  with assms(2) show ?thesis by (metis mset_eq_imp_distinct_iff)
qed

lemma datD:
  assumes "dat c tasks db gone s"
  shows "mset (gone @ removing (writeProc s) @ ready s @ todo s) = mset tasks"
    and "fs s (hmmModelFile c) = db"
    and "writeProc s = RNotStarted \<or> writeProc s = ROpen \<Longrightarrow> gone = []"
    and "writeProc s \<noteq> RNotStarted \<Longrightarrow> writeProc s \<noteq> ROpen \<Longrightarrow>
           fs s (ouputModelFile c) = Some (written c db (gone @ removing (writeProc s)))"
    and "\<And>t. t \<in> set (ready s) \<Longrightarrow> fs s (snd t) = Some (hmmfetch c db (fst t))"
    and "\<And>t. t \<in> set (removing (writeProc s)) \<Longrightarrow> fs s (snd t) \<noteq> None"
    and "\<And>t. t \<in> set gone \<Longrightarrow> fs s (snd t) = None"
    and "writeProc s \<noteq> RRaised"
  using assms by (auto simp: dat_def split: if_splits)

lemma dat_tasks:
  assumes "dat c tasks db gone s"
  shows "set gone \<union> set (removing (writeProc s)) \<union> set (ready s) \<union> set (todo s) = set tasks"
proof -
  from datD(1) [OF assms]
  have "set (gone @ removing (writeProc s) @ ready s @ todo s) = set tasks"
    by (rule mset_eq_setD)
  then show ?thesis by auto
qed

lemma dat_paths:
  assumes "dat c tasks db gone s" and "paths_ok c tasks"
  shows "distinct (map snd (gone @ removing (writeProc s) @ ready s @ todo s))"
proof -
  from assms(2) have "distinct (map snd tasks)" by (simp add: paths_ok_def)
  with datD(1) [OF assms(1)] show ?thesis by (rule slots_distinct)
qed

lemma distinct_map_append_neq:
  "distinct (map f (xs @ ys)) \<Longrightarrow> x \<in> set xs \<Longrightarrow> y \<in> set ys \<Longrightarrow> f x \<noteq> f y"
  by auto

lemma mset_add_single_member: "mset xs + {#t#} = mset ys \<Longrightarrow> t \<in> set ys"
proof -
  assume a: "mset xs + {#t#} = mset ys"
  have "t \<in># mset xs + {#t#}" by simp
  with a have "t \<in># mset ys" by simp
  then show ?thesis by simp
qed

lemma mset_add_single_set: "mset ys = mset xs + {#t#} \<Longrightarrow> set ys = insert t (set xs)"
proof -
  assume "mset ys = mset xs + {#t#}"
  then have "set_mset (mset ys) = set_mset (mset xs + {#t#})" by simp
  then show ?thesis by simp
qed

lemma paths_ok_not_out: "paths_ok c tasks \<Longrightarrow> t \<in> set tasks \<Longrightarrow> snd t \<noteq> ouputModelFile c"
  unfolding paths_ok_def by (metis imageI)

lemma paths_ok_not_db: "paths_ok c tasks \<Longrightarrow> t \<in> set tasks \<Longrightarrow> snd t \<noteq> hmmModelFile c"
  unfolding paths_ok_def by (metis imageI)

lemma dat_same:
  assumes "dat c tasks db gone s"
    and "mset (ready s') = mset (ready s)" and "mset (todo s') = mset (todo s)"
    and "fs s' = fs s" and "writeProc s' = writeProc s"
  shows "dat c tasks db gone s'"
proof -
  from assms(2) have "set (ready s') = set (ready s)" by (rule mset_eq_setD)
  with assms show ?thesis by (simp add: dat_def)
qed

lemma concat_update_gain:
  assumes "i < length ws" and "f (ws ! i) = []"
  shows "mset (concat (map f (ws[i := y]))) = mset (concat (map f ws)) + mset (f y)"
  using mset_concat_map_update [OF assms(1), of f y] assms(2) by simp

lemma concat_update_lose:
  assumes "i < length ws" and "f y = []"
  shows "mset (concat (map f (ws[i := y]))) + mset (f (ws ! i)) = mset (concat (map f ws))"
  using mset_concat_map_update [OF assms(1), of f y] assms(2) by simp

lemma worker_step_dat:
  assumes "paths_ok c tasks" and "dat c tasks db gone s" and "worker_step c i s = Some s'"
  shows "dat c tasks db gone s'"
  using assms(3)
proof (cases rule: worker_stepE)
  case init
  then have R: "mset (ready s') = mset (ready s)" and T: "mset (todo s') = mset (todo s)"
    by (simp_all add: ready_def todo_def concat_update_gain)
  from init have F: "fs s' = fs s" and W: "writeProc s' = writeProc s"
    by simp_all
  show ?thesis by (rule dat_same [OF assms(2) R T F W])
next
  case init_raises
  then have R: "mset (ready s') = mset (ready s)" and T: "mset (todo s') = mset (todo s)"
    by (simp_all add: ready_def todo_def concat_update_gain)
  from init_raises have F: "fs s' = fs s" and W: "writeProc s' = writeProc s"
    by simp_all
  show ?thesis by (rule dat_same [OF assms(2) R T F W])
next
  case (get_stop q)
  then have R: "mset (ready s') = mset (ready s)" and T: "mset (todo s') = mset (todo s)"
    by (simp_all add: ready_def todo_def concat_update_gain)
  from get_stop have F: "fs s' = fs s" and W: "writeProc s' = writeProc s"
    by simp_all
  show ?thesis by (rule dat_same [OF assms(2) R T F W])
next
  case (get_task modelAcc fetchFilename q)
  then have R: "mset (ready s') = mset (ready s)" and T: "mset (todo s') = mset (todo s)"
    by (simp_all add: ready_def todo_def concat_update_gain)
  from get_task have F: "fs s' = fs s" and W: "writeProc s' = writeProc s"
    by simp_all
  show ?thesis by (rule dat_same [OF assms(2) R T F W])
next
  case (put modelAcc fetchFilename)
  from put(1) have "mset (concat (map fetched ((calcProc s)[i := WGet])))
      + mset (fetched (calcProc s ! i)) = mset (concat (map fetched (calcProc s)))"
    by (rule concat_update_lose) simp
  with put have R: "mset (ready s') = mset (ready s)" and T: "mset (todo s') = mset (todo s)"
    by (simp_all add: ready_def todo_def concat_update_gain)
  from put have F: "fs s' = fs s" and W: "writeProc s' = writeProc s"
    by simp_all
  show ?thesis by (rule dat_same [OF assms(2) R T F W])
next
  case (fetch modelAcc fetchFilename)
  let ?t = "(modelAcc, fetchFilename)"
  from fetch(1) have "mset (concat (map fetching ((calcProc s)[i := WPut modelAcc fetchFilename])))
      + mset (fetching (calcProc s ! i)) = mset (concat (map fetching (calcProc s)))"
    by (rule concat_update_lose) simp
  with fetch have R: "mset (ready s') = mset (ready s) + {#?t#}"
    and T: "mset (todo s') + {#?t#} = mset (todo s)"
    by (simp_all add: ready_def todo_def concat_update_gain)
  from T have tin: "?t \<in> set (todo s)"
    by (rule mset_add_single_member)
  from R have Rset: "set (ready s') = insert ?t (set (ready s))"
    by (rule mset_add_single_set)
  from tin dat_tasks [OF assms(2)] have tt: "?t \<in> set tasks" by auto
  have other: "snd u \<noteq> fetchFilename"
    if "u \<in> set gone \<union> set (removing (writeProc s)) \<union> set (ready s)" for u
  proof -
    have "distinct (map snd ((gone @ removing (writeProc s) @ ready s) @ todo s))"
      using dat_paths [OF assms(2,1)] by simp
    moreover from that have "u \<in> set (gone @ removing (writeProc s) @ ready s)" by auto
    ultimately have "snd u \<noteq> snd ?t" using tin by (rule distinct_map_append_neq)
    then show ?thesis by simp
  qed
  have w: "writeProc s' = writeProc s" using fetch by simp
  have f: "fs s' = (fs s)(fetchFilename \<mapsto> hmmfetch c db modelAcc)"
    using fetch datD(2) [OF assms(2)] by simp
  show ?thesis
    unfolding dat_def
  proof (intro conjI)
    show "mset (gone @ removing (writeProc s') @ ready s' @ todo s') = mset tasks"
      using datD(1) [OF assms(2)] R T [symmetric] w by (simp add: ac_simps)
    show "fs s' (hmmModelFile c) = db"
      using f datD(2) [OF assms(2)] paths_ok_not_db [OF assms(1) tt] by simp
    show "if writeProc s' = RNotStarted \<or> writeProc s' = ROpen then gone = []
      else fs s' (ouputModelFile c) = Some (written c db (gone @ removing (writeProc s')))"
      using f w datD(3,4) [OF assms(2)] paths_ok_not_out [OF assms(1) tt] by auto
    show "\<forall>t\<in>set (ready s'). fs s' (snd t) = Some (hmmfetch c db (fst t))"
      using Rset f datD(5) [OF assms(2)] other by auto
    show "\<forall>t\<in>set (removing (writeProc s')). fs s' (snd t) \<noteq> None"
      using w f datD(6) [OF assms(2)] other by auto
    show "\<forall>t\<in>set gone. fs s' (snd t) = None"
      using f datD(7) [OF assms(2)] other by auto
    show "writeProc s' \<noteq> RRaised"
      using w datD(8) [OF assms(2)] by simp
  qed
qed

lemma written_snoc: "written c db (ts @ [t]) = written c db ts @ hmmfetch c db (fst t)"
  by (simp add: written_def)

lemma dat_same_writer:
  assumes "dat c tasks db gone s"
    and "mset (ready s') = mset (ready s)" and "todo s' = todo s" and "fs s' = fs s"
    and "removing (writeProc s') = removing (writeProc s)"
    and "writeProc s \<noteq> RNotStarted" and "writeProc s \<noteq> ROpen"
    and "writeProc s' \<noteq> RNotStarted" and "writeProc s' \<noteq> ROpen"
    and "writeProc s' \<noteq> RRaised"
  shows "dat c tasks db gone s'"
proof -
  from assms(2) have "set (ready s') = set (ready s)" by (rule mset_eq_setD)
  with assms show ?thesis by (simp add: dat_def)
qed

lemma writer_step_dat:
  assumes "paths_ok c tasks" and "dat c tasks db gone s" and "writer_step c s = Some s'"
  shows "\<exists>gone'. dat c tasks db gone' s'"
  using assms(3)
proof (cases rule: writer_stepE)
  case open_out
  from open_out datD(3) [OF assms(2)] have g: "gone = []" by simp
  have R: "ready s' = ready s" and T: "todo s' = todo s"
    using open_out by (simp_all add: ready_def todo_def)
  have out: "snd t \<noteq> ouputModelFile c" if "t \<in> set (ready s)" for t
    using that dat_tasks [OF assms(2)] paths_ok_not_out [OF assms(1), of t] by auto
  have "dat c tasks db gone s'"
    unfolding dat_def
  proof (intro conjI)
    show "mset (gone @ removing (writeProc s') @ ready s' @ todo s') = mset tasks"
      using datD(1) [OF assms(2)] R T open_out by simp
    show "fs s' (hmmModelFile c) = db"
      using open_out datD(2) [OF assms(2)] assms(1) by (simp add: paths_ok_def)
    show "if writeProc s' = RNotStarted \<or> writeProc s' = ROpen then gone = []
      else fs s' (ouputModelFile c) = Some (written c db (gone @ removing (writeProc s')))"
      using open_out g by (simp add: written_def)
    show "\<forall>t\<in>set (ready s'). fs s' (snd t) = Some (hmmfetch c db (fst t))"
      using R open_out datD(5) [OF assms(2)] out by simp
    show "\<forall>t\<in>set (removing (writeProc s')). fs s' (snd t) \<noteq> None"
      using open_out by simp
    show "\<forall>t\<in>set gone. fs s' (snd t) = None"
      using g by simp
    show "writeProc s' \<noteq> RRaised"
      using open_out by simp
  qed
  then show ?thesis ..
next
  case (get_stop q)
  have "dat c tasks db gone s'"
  proof (rule dat_same_writer [OF assms(2)])
    show "mset (ready s') = mset (ready s)" using get_stop by (simp add: ready_def)
  qed (use get_stop in \<open>simp_all add: todo_def\<close>)
  then show ?thesis ..
next
  case (get_task modelAcc fetchFilename q)
  have "dat c tasks db gone s'"
  proof (rule dat_same_writer [OF assms(2)])
    show "mset (ready s') = mset (ready s)" using get_task by (simp add: ready_def)
  qed (use get_task in \<open>simp_all add: todo_def\<close>)
  then show ?thesis ..
next
  case (copy_missing modelAcc fetchFilename)
  then have "(modelAcc, fetchFilename) \<in> set (ready s)" by (simp add: ready_def)
  from datD(5) [OF assms(2) this] copy_missing show ?thesis by simp
next
  case (remove_missing modelAcc fetchFilename)
  then have "(modelAcc, fetchFilename) \<in> set (removing (writeProc s))" by simp
  from datD(6) [OF assms(2) this] remove_missing show ?thesis by simp
next
  case close
  have "dat c tasks db gone s'"
  proof (rule dat_same_writer [OF assms(2)])
    show "mset (ready s') = mset (ready s)" using close by (simp add: ready_def)
  qed (use close in \<open>simp_all add: todo_def\<close>)
  then show ?thesis ..
next
  case (copy modelAcc fetchFilename content)
  let ?t = "(modelAcc, fetchFilename)"
  have tin: "?t \<in> set (ready s)" using copy by (simp add: ready_def)
  from datD(5) [OF assms(2) tin] copy have content: "content = hmmfetch c db modelAcc"
    by simp
  have R: "mset (ready s') + {#?t#} = mset (ready s)" and T: "todo s' = todo s"
    using copy by (simp_all add: ready_def todo_def)
  have sub: "set (ready s') \<subseteq> set (ready s)"
    using R by (metis mset_eq_setD set_mset_mset set_mset_add_mset_insert add_mset_add_single subset_insertI)
  have keep: "fs s' (snd t) = fs s (snd t)"
    if "t \<in> set gone \<union> set (removing (writeProc s)) \<union> set (ready s)" for t
  proof -
    from that dat_tasks [OF assms(2)] have "t \<in> set tasks" by auto
    then have "snd t \<noteq> ouputModelFile c" by (rule paths_ok_not_out [OF assms(1)])
    with copy show ?thesis by simp
  qed
  have old: "fs s (ouputModelFile c) = Some (written c db gone)"
    using datD(4) [OF assms(2)] copy by simp
  have "dat c tasks db gone s'"
    unfolding dat_def
  proof (intro conjI)
    show "mset (gone @ removing (writeProc s') @ ready s' @ todo s') = mset tasks"
      using datD(1) [OF assms(2)] R [symmetric] T copy by (simp add: ac_simps)
    show "fs s' (hmmModelFile c) = db"
      using copy datD(2) [OF assms(2)] assms(1) by (simp add: paths_ok_def)
    show "if writeProc s' = RNotStarted \<or> writeProc s' = ROpen then gone = []
      else fs s' (ouputModelFile c) = Some (written c db (gone @ removing (writeProc s')))"
      using copy old content by (simp add: written_snoc)
    show "\<forall>t\<in>set (ready s'). fs s' (snd t) = Some (hmmfetch c db (fst t))"
    proof
      fix t
      assume "t \<in> set (ready s')"
      with sub have "t \<in> set (ready s)" by auto
      with keep [of t] datD(5) [OF assms(2), of t] show "fs s' (snd t) = Some (hmmfetch c db (fst t))"
        by simp
    qed
    show "\<forall>t\<in>set (removing (writeProc s')). fs s' (snd t) \<noteq> None"
    proof
      fix t
      assume "t \<in> set (removing (writeProc s'))"
      with copy have "t = ?t" by simp
      with keep [of ?t] tin datD(5) [OF assms(2) tin] show "fs s' (snd t) \<noteq> None"
        by simp
    qed
    show "\<forall>t\<in>set gone. fs s' (snd t) = None"
    proof
      fix t
      assume "t \<in> set gone"
      with keep [of t] datD(7) [OF assms(2), of t] show "fs s' (snd t) = None" by simp
    qed
    show "writeProc s' \<noteq> RRaised"
      using copy by simp
  qed
  then show ?thesis ..
next
  case (remove modelAcc fetchFilename)
  let ?t = "(modelAcc, fetchFilename)"
  have tin: "?t \<in> set (removing (writeProc s))" using remove by simp
  with dat_tasks [OF assms(2)] have tt: "?t \<in> set tasks" by auto
  have R: "ready s' = ready s" and T: "todo s' = todo s"
    using remove by (simp_all add: ready_def todo_def)
  have other: "snd u \<noteq> fetchFilename" if "u \<in> set (ready s)" for u
  proof -
    have "distinct (map snd (removing (writeProc s) @ ready s))"
      using dat_paths [OF assms(2,1)] by auto
    from this tin that have "snd ?t \<noteq> snd u" by (rule distinct_map_append_neq)
    then show ?thesis by simp
  qed
  have "dat c tasks db (gone @ [?t]) s'"
    unfolding dat_def
  proof (intro conjI)
    show "mset ((gone @ [?t]) @ removing (writeProc s') @ ready s' @ todo s') = mset tasks"
      using datD(1) [OF assms(2)] R T remove by simp
    show "fs s' (hmmModelFile c) = db"
      using remove datD(2) [OF assms(2)] paths_ok_not_db [OF assms(1) tt] by simp
    show "if writeProc s' = RNotStarted \<or> writeProc s' = ROpen then gone @ [?t] = []
      else fs s' (ouputModelFile c)
           = Some (written c db ((gone @ [?t]) @ removing (writeProc s')))"
      using remove datD(4) [OF assms(2)] paths_ok_not_out [OF assms(1) tt] by simp
    show "\<forall>t\<in>set (ready s'). fs s' (snd t) = Some (hmmfetch c db (fst t))"
      using R remove datD(5) [OF assms(2)] other by simp
    show "\<forall>t\<in>set (removing (writeProc s')). fs s' (snd t) \<noteq> None"
      using remove by simp
    show "\<forall>t\<in>set (gone @ [?t]). fs s' (snd t) = None"
      using remove datD(7) [OF assms(2)] by simp
    show "writeProc s' \<noteq> RRaised"
      using remove by simp
  qed
  then show ?thesis ..
qed

lemma main_step_dat:
  assumes "ctl c s" and "dat c tasks db gone s" and "main_step c s = Some s'"
  shows "dat c tasks db gone s'"
  using assms(3)
proof (cases rule: main_stepE)
  case start_writer
  with ctlD(4) [OF assms(1)] have w: "writeProc s = RNotStarted" by (simp add: main_ok_def)
  with datD(3) [OF assms(2)] have g: "gone = []" by simp
  from start_writer w have R: "ready s' = ready s" and T: "todo s' = todo s"
    and F: "fs s' = fs s" by (simp_all add: ready_def todo_def)
  from assms(2) R T F w g start_writer show ?thesis by (simp add: dat_def)
next
  case (start_worker i)
  with ctlD(4) [OF assms(1)] have "calcProc s ! i = WNotStarted" by (simp add: main_ok_def)
  with start_worker have R: "mset (ready s') = mset (ready s)"
    and T: "mset (todo s') = mset (todo s)"
    by (simp_all add: ready_def todo_def concat_update_gain)
  from start_worker have F: "fs s' = fs s" and W: "writeProc s' = writeProc s" by simp_all
  show ?thesis by (rule dat_same [OF assms(2) R T F W])
next
  case (started i)
  then have R: "mset (ready s') = mset (ready s)" and T: "mset (todo s') = mset (todo s)"
    and F: "fs s' = fs s" and W: "writeProc s' = writeProc s"
    by (simp_all add: ready_def todo_def)
  show ?thesis by (rule dat_same [OF assms(2) R T F W])
next
  case (join_worker i)
  then have R: "mset (ready s') = mset (ready s)" and T: "mset (todo s') = mset (todo s)"
    and F: "fs s' = fs s" and W: "writeProc s' = writeProc s"
    by (simp_all add: ready_def todo_def)
  show ?thesis by (rule dat_same [OF assms(2) R T F W])
next
  case (joined i)
  then have R: "mset (ready s') = mset (ready s)" and T: "mset (todo s') = mset (todo s)"
    and F: "fs s' = fs s" and W: "writeProc s' = writeProc s"
    by (simp_all add: ready_def todo_def)
  show ?thesis by (rule dat_same [OF assms(2) R T F W])
next
  case put_stop
  then have R: "mset (ready s') = mset (ready s)" and T: "mset (todo s') = mset (todo s)"
    and F: "fs s' = fs s" and W: "writeProc s' = writeProc s"
    by (simp_all add: ready_def todo_def)
  show ?thesis by (rule dat_same [OF assms(2) R T F W])
next
  case join_writer
  then have R: "mset (ready s') = mset (ready s)" and T: "mset (todo s') = mset (todo s)"
    and F: "fs s' = fs s" and W: "writeProc s' = writeProc s"
    by (simp_all add: ready_def todo_def)
  show ?thesis by (rule dat_same [OF assms(2) R T F W])
qed

lemma step_dat:
  assumes "paths_ok c tasks" and "ctl c s" and "dat c tasks db gone s" and "step c p s = Some s'"
  shows "\<exists>gone'. dat c tasks db gone' s'"
proof (cases p)
  case Main
  with assms(4) have "main_step c s = Some s'" by simp
  with assms(2,3) have "dat c tasks db gone s'" by (rule main_step_dat)
  then show ?thesis ..
next
  case Writer
  with assms(4) have "writer_step c s = Some s'" by simp
  with assms(1,3) show ?thesis by (rule writer_step_dat)
next
  case (Worker i)
  with assms(4) have "worker_step c i s = Some s'" by simp
  with assms(1,3) have "dat c tasks db gone s'" by (rule worker_step_dat)
  then show ?thesis ..
qed

lemma run_inv:
  assumes "paths_ok c tasks" and "hmmer_installed c"
    and "ctl c s" and "dat c tasks db gone s" and "run c ps s = Some s'"
  shows "ctl c s' \<and> (\<exists>gone'. dat c tasks db gone' s')"
  using assms(3-5)
proof (induction ps arbitrary: s gone)
  case Nil
  then show ?case by auto
next
  case (Cons p ps)
  from Cons.prems(3) obtain t where t: "step c p s = Some t" and r: "run c ps t = Some s'"
    by (rule run_Cons_Some)
  from Cons.prems(1) assms(2) t have c: "ctl c t" by (rule step_ctl)
  from assms(1) Cons.prems(1,2) t obtain g where "dat c tasks db g t"
    using step_dat by blast
  from c this r show ?case by (rule Cons.IH)
qed

lemma returned_state:
  assumes "ctl c s" and "dat c tasks db gone s" and "mainProc s = MReturned"
    and "0 < totalThreads c"
  shows "mset gone = mset tasks"
    and "fs s (ouputModelFile c) = Some (written c db gone)"
    and "\<forall>t \<in> set tasks. fs s (snd t) = None"
proof -
  from assms(3) ctlD(4) [OF assms(1)] datD(8) [OF assms(2)]
  have w: "writeProc s = RExit" and ex: "\<forall>j < length (calcProc s). calcProc s ! j = WExit"
    by (simp_all add: main_ok_def)
  from ex have "\<forall>w \<in> set (calcProc s). w = WExit"
    by (auto simp: in_set_conv_nth)
  then have held: "concat (map fetching (calcProc s)) = []" "concat (map fetched (calcProc s)) = []"
    by auto
  from assms(4) ctlD(1) [OF assms(1)] ex have "calcProc s ! 0 = WExit" "0 < length (calcProc s)"
    by simp_all
  with ctlD(3) [OF assms(1)] alive_zero [OF ex]
  have "workerQueue s = []"
    by (auto simp: queue_ok_def)
  moreover from assms(3) w ctlD(5) [OF assms(1)] have "writerQueue s = []"
    by (simp add: stop_ok_def)
  ultimately have e: "ready s = []" "todo s = []" "removing (writeProc s) = []"
    using held w by (simp_all add: ready_def todo_def)
  with datD(1) [OF assms(2)] show g: "mset gone = mset tasks" by simp
  from datD(4) [OF assms(2)] w e show "fs s (ouputModelFile c) = Some (written c db gone)"
    by simp
  from g have "set gone = set tasks" by (rule mset_eq_setD)
  with datD(7) [OF assms(2)] show "\<forall>t \<in> set tasks. fs s (snd t) = None" by auto
qed

subsection \<open>The claims about the extractor\<close>

lemma start_paths_ok:
  assumes "valid_call c ids uuids"
  shows "paths_ok c (zip ids (map tmp_file uuids))"
proof -
  let ?tmp = "map tmp_file uuids"
  from assms have l: "length ids = length ?tmp" by (simp add: valid_call_def)
  then have m: "map snd (zip ids ?tmp) = ?tmp" by (rule map_snd_zip)
  from assms have "distinct ?tmp"
    by (simp add: valid_call_def distinct_map inj_on_def tmp_file_def)
  with m have d: "distinct (map snd (zip ids ?tmp))" by simp
  from m have "snd ` set (zip ids ?tmp) = set ?tmp" by (metis set_map)
  with d assms show ?thesis by (simp add: paths_ok_def valid_call_def)
qed

lemma start_keys:
  assumes "valid_call c ids uuids"
  shows "map fst (zip ids (map tmp_file uuids)) = ids"
  using assms by (intro map_fst_zip) (simp add: valid_call_def)

lemma reachable_inv:
  assumes "valid_call c ids uuids"
    and "run c sched (extract_start c ids uuids files) = Some s"
  shows "ctl c s \<and>
    (\<exists>gone. dat c (zip ids (map tmp_file uuids)) (files (hmmModelFile c)) gone s)"
proof -
  from assms(1) have "hmmer_installed c" by (simp add: valid_call_def)
  with start_paths_ok [OF assms(1)] show ?thesis
    using init_ctl init_dat assms(2) by (rule run_inv)
qed

lemma written_keys: "written c db ts = concat (map (hmmfetch c db) (map fst ts))"
  by (simp add: written_def comp_def)

lemma ex_valid: "valid_call ex_config [''PF00001'', ''PF00002'', ''PF00003''] [''a'', ''b'', ''c'']"
  by (simp add: valid_call_def ex_config_def tmp_file_def)

lemma ex_run_some: "\<not> Option.is_none (run ex_config ex_schedule ex_start)"
  by code_simp

lemma ex_run_result:
  "(case run ex_config ex_schedule ex_start of
      None \<Rightarrow> False
    | Some s \<Rightarrow> mainProc s = MReturned \<and> writeProc s = RExit \<and>
        fs s ''out.hmm'' = Some ex_output \<and>
        fs s ''/tmp/a'' = None \<and> fs s ''/tmp/b'' = None \<and> fs s ''/tmp/c'' = None)"
  by code_simp

text \<open>
  Claim C1. For every call with HMMER installed, \<open>T \<ge> 1\<close> workers and pairwise different
  temporary files, and for every schedule: the run has at most \<open>9 + 5 T + 6 N\<close> steps; as
  long as \<^verbatim>\<open>extract\<close> has not returned, some process has a step (no deadlock); and when
  \<^verbatim>\<open>extract\<close> has returned, the output file holds exactly the concatenation of the fetch
  results of the \<open>N\<close> requested identifiers, each of them once, in some order.
\<close>

theorem extract_concatenates:
  assumes "valid_call c modelAccIds uuids"
    and "run c sched (extract_start c modelAccIds uuids files) = Some s"
  shows "length sched \<le> 9 + 5 * totalThreads c + 6 * length modelAccIds \<and>
         (mainProc s \<noteq> MReturned \<longrightarrow> (\<exists>p s'. step c p s = Some s')) \<and>
         (mainProc s = MReturned \<longrightarrow>
            (\<exists>ks. mset ks = mset modelAccIds \<and>
                  fs s (ouputModelFile c)
                    = Some (concat (map (hmmfetch c (files (hmmModelFile c))) ks))))"
proof (intro conjI impI)
  let ?tasks = "zip modelAccIds (map tmp_file uuids)"
  from reachable_inv [OF assms] obtain gone
    where c: "ctl c s" and d: "dat c ?tasks (files (hmmModelFile c)) gone s"
    by blast
  from assms(1) have l: "length uuids = length modelAccIds" and T: "0 < totalThreads c"
    by (simp_all add: valid_call_def)
  from run_length [OF assms(2)] steps_left_start [of c modelAccIds uuids files] l
  show "length sched \<le> 9 + 5 * totalThreads c + 6 * length modelAccIds"
    by simp
  show "\<exists>p s'. step c p s = Some s'" if "mainProc s \<noteq> MReturned"
    using c that by (rule progress)
  show "\<exists>ks. mset ks = mset modelAccIds \<and>
      fs s (ouputModelFile c) = Some (concat (map (hmmfetch c (files (hmmModelFile c))) ks))"
    if r: "mainProc s = MReturned"
  proof -
    from returned_state(1) [OF c d r T] have "mset (map fst gone) = mset (map fst ?tasks)"
      by simp
    with start_keys [OF assms(1)] have "mset (map fst gone) = mset modelAccIds" by simp
    moreover from returned_state(2) [OF c d r T]
    have "fs s (ouputModelFile c)
        = Some (concat (map (hmmfetch c (files (hmmModelFile c))) (map fst gone)))"
      by (simp add: written_keys)
    ultimately show ?thesis by (intro exI [of _ "map fst gone"] conjI)
  qed
qed

text \<open>
  The example run ends with \<^verbatim>\<open>extract\<close> returned and the three models in the output file,
  the second one first: the order is the order of completion.
\<close>

theorem extract_concatenates_witness:
  "valid_call ex_config [''PF00001'', ''PF00002'', ''PF00003''] [''a'', ''b'', ''c''] \<and>
   (\<exists>s. run ex_config ex_schedule ex_start = Some s \<and> mainProc s = MReturned \<and>
        fs s ''out.hmm'' = Some ex_output \<and>
        length ex_schedule \<le> 9 + 5 * totalThreads ex_config + 6 * 3 \<and>
        (\<exists>ks. mset ks = mset [''PF00001'', ''PF00002'', ''PF00003''] \<and>
              fs s (ouputModelFile ex_config)
                = Some (concat (map (hmmfetch ex_config (ex_files (hmmModelFile ex_config))) ks))))"
proof -
  from ex_run_some obtain s where r: "run ex_config ex_schedule ex_start = Some s"
    by (auto simp: Option.is_none_def)
  from ex_run_result r have m: "mainProc s = MReturned" and o: "fs s ''out.hmm'' = Some ex_output"
    by simp_all
  note t = extract_concatenates [OF ex_valid r [unfolded ex_start_def]]
  from t have l: "length ex_schedule \<le> 9 + 5 * totalThreads ex_config + 6 * 3"
    by simp
  from t m have k: "\<exists>ks. mset ks = mset [''PF00001'', ''PF00002'', ''PF00003''] \<and>
      fs s (ouputModelFile ex_config)
        = Some (concat (map (hmmfetch ex_config (ex_files (hmmModelFile ex_config))) ks))"
    by simp
  from r m o l k have "\<exists>s. run ex_config ex_schedule ex_start = Some s \<and> mainProc s = MReturned \<and>
        fs s ''out.hmm'' = Some ex_output \<and>
        length ex_schedule \<le> 9 + 5 * totalThreads ex_config + 6 * 3 \<and>
        (\<exists>ks. mset ks = mset [''PF00001'', ''PF00002'', ''PF00003''] \<and>
              fs s (ouputModelFile ex_config)
                = Some (concat (map (hmmfetch ex_config (ex_files (hmmModelFile ex_config))) ks)))"
    by (intro exI [of _ s] conjI)
  with ex_valid show ?thesis by (rule conjI)
qed

text \<open>
  Claim C8. When \<^verbatim>\<open>extract\<close> has returned, none of the temporary files of the call is
  left: the writer has removed each of them after copying it.
\<close>

theorem temp_files_removed:
  assumes "valid_call c modelAccIds uuids"
    and "run c sched (extract_start c modelAccIds uuids files) = Some s"
    and "mainProc s = MReturned"
  shows "\<forall>u \<in> set uuids. fs s (tmp_file u) = None"
proof
  fix u
  assume u: "u \<in> set uuids"
  let ?tmp = "map tmp_file uuids"
  let ?tasks = "zip modelAccIds ?tmp"
  from reachable_inv [OF assms(1,2)] obtain gone
    where c: "ctl c s" and d: "dat c ?tasks (files (hmmModelFile c)) gone s"
    by blast
  from assms(1) have l: "length modelAccIds = length ?tmp" and T: "0 < totalThreads c"
    by (simp_all add: valid_call_def)
  from l have m: "map snd ?tasks = ?tmp" by (rule map_snd_zip)
  from u have "tmp_file u \<in> set (map snd ?tasks)" unfolding m by simp
  then obtain t where "t \<in> set ?tasks" and "snd t = tmp_file u"
    unfolding set_map by (auto simp: image_iff)
  with returned_state(3) [OF c d assms(3) T] show "fs s (tmp_file u) = None"
    by metis
qed

theorem temp_files_removed_witness:
  "valid_call ex_config [''PF00001'', ''PF00002'', ''PF00003''] [''a'', ''b'', ''c''] \<and>
   (\<exists>s. run ex_config ex_schedule ex_start = Some s \<and> mainProc s = MReturned \<and>
        fs s (tmp_file ''a'') = None \<and> fs s (tmp_file ''b'') = None \<and>
        fs s (tmp_file ''c'') = None)"
proof -
  from ex_run_some obtain s where r: "run ex_config ex_schedule ex_start = Some s"
    by (auto simp: Option.is_none_def)
  from ex_run_result r have m: "mainProc s = MReturned"
    by simp
  from temp_files_removed [OF ex_valid r [unfolded ex_start_def] m]
  have "fs s (tmp_file ''a'') = None" and "fs s (tmp_file ''b'') = None"
    and "fs s (tmp_file ''c'') = None"
    by simp_all
  with r m have "\<exists>s. run ex_config ex_schedule ex_start = Some s \<and> mainProc s = MReturned \<and>
        fs s (tmp_file ''a'') = None \<and> fs s (tmp_file ''b'') = None \<and>
        fs s (tmp_file ''c'') = None"
    by (intro exI [of _ s] conjI)
  with ex_valid show ?thesis by (rule conjI)
qed

text \<open>
  Claim C9, as amended. The writer opens the output file in write mode (\<^verbatim>\<open>'w'\<close>), which
  truncates it: from the moment the file is open, it holds the models copied so far in
  this call and nothing else, whatever it held before the call.
\<close>

theorem output_opened_for_writing:
  assumes "valid_call c modelAccIds uuids"
    and "run c sched (extract_start c modelAccIds uuids files) = Some s"
    and "writeProc s \<noteq> RNotStarted" and "writeProc s \<noteq> ROpen"
  shows "\<exists>ks. mset ks \<subseteq># mset modelAccIds \<and>
           fs s (ouputModelFile c) = Some (concat (map (hmmfetch c (files (hmmModelFile c))) ks))"
proof -
  let ?tasks = "zip modelAccIds (map tmp_file uuids)"
  from reachable_inv [OF assms(1,2)] obtain gone
    where d: "dat c ?tasks (files (hmmModelFile c)) gone s"
    by blast
  let ?w = "gone @ removing (writeProc s)"
  from datD(1) [OF d] have "mset ?w \<subseteq># mset ?tasks"
    by (metis append_assoc mset_append mset_subset_eq_add_left)
  then have "image_mset fst (mset ?w) \<subseteq># image_mset fst (mset ?tasks)"
    by (rule image_mset_subseteq_mono)
  with start_keys [OF assms(1)] have "mset (map fst ?w) \<subseteq># mset modelAccIds"
    by (metis mset_map)
  moreover from datD(4) [OF d assms(3,4)]
  have "fs s (ouputModelFile c)
      = Some (concat (map (hmmfetch c (files (hmmModelFile c))) (map fst ?w)))"
    by (simp add: written_keys)
  ultimately show ?thesis by (intro exI [of _ "map fst ?w"] conjI)
qed

theorem output_opened_for_writing_witness:
  "valid_call ex_config [''PF00001'', ''PF00002'', ''PF00003''] [''a'', ''b'', ''c''] \<and>
   (\<exists>s. run ex_config ex_schedule ex_start = Some s \<and> writeProc s = RExit \<and>
        (\<exists>ks. mset ks \<subseteq># mset [''PF00001'', ''PF00002'', ''PF00003''] \<and>
              fs s (ouputModelFile ex_config)
                = Some (concat (map (hmmfetch ex_config (ex_files (hmmModelFile ex_config))) ks))))"
proof -
  from ex_run_some obtain s where r: "run ex_config ex_schedule ex_start = Some s"
    by (auto simp: Option.is_none_def)
  from ex_run_result r have w: "writeProc s = RExit"
    by simp
  then have n: "writeProc s \<noteq> RNotStarted" "writeProc s \<noteq> ROpen" by simp_all
  note k = output_opened_for_writing [OF ex_valid r [unfolded ex_start_def] n]
  from r w k have "\<exists>s. run ex_config ex_schedule ex_start = Some s \<and> writeProc s = RExit \<and>
        (\<exists>ks. mset ks \<subseteq># mset [''PF00001'', ''PF00002'', ''PF00003''] \<and>
              fs s (ouputModelFile ex_config)
                = Some (concat (map (hmmfetch ex_config (ex_files (hmmModelFile ex_config))) ks)))"
    by (intro exI [of _ s] conjI)
  with ex_valid show ?thesis by (rule conjI)
qed

text \<open>
  C9 as stated fails: the output file of the example holds \<^verbatim>\<open>old\<close> before the call, and
  after the call it holds the three models only.
\<close>

theorem append_mode_counterexample:
  "ex_files (ouputModelFile ex_config) = Some ''old'' \<and>
   (case run ex_config ex_schedule ex_start of
      None \<Rightarrow> False
    | Some s \<Rightarrow> mainProc s = MReturned \<and> fs s (ouputModelFile ex_config) = Some ex_output) \<and>
   take 3 ex_output \<noteq> ''old''"
  by code_simp

end
